(* ===== verification/Prelude.thy ===== *)
theory Prelude
  imports Main
begin

text \<open>
  Shared vocabulary of the habit-tracker development.
  \<^item> A Python \<open>str\<close> is a sequence of Unicode code points: \<open>pystr\<close>, a list of
    naturals. \<open>ustr ''abc''\<close> writes a literal whose characters are below 256.
  \<^item> A Python \<open>dict\<close> keeps its keys in insertion order; it is an association list
    with distinct keys. \<open>d[k] = v\<close> is \<open>dict_set\<close> (an existing key keeps its position,
    a new key goes last), \<open>del d[k]\<close> is \<open>dict_del\<close>, \<open>k in d\<close> is
    \<open>map_of d k \<noteq> None\<close>, and \<open>dict(pairs)\<close> is \<open>dict_of_pairs\<close> (a repeated key
    keeps its first position and its last value).
  The lemmas below describe these operations through \<open>map_of\<close> and through the list of
  keys, and are collected in \<open>dict_simps\<close> for the component proofs.
\<close>

type_synonym pystr = "nat list"

abbreviation ustr :: "string \<Rightarrow> pystr" where
  "ustr s \<equiv> map of_char s"

named_theorems dict_simps "equations of the Python dict operations on association lists"

fun dict_set :: "'k \<Rightarrow> 'v \<Rightarrow> ('k \<times> 'v) list \<Rightarrow> ('k \<times> 'v) list" where
  "dict_set k v [] = [(k, v)]"
| "dict_set k v ((a, b) # ps) = (if a = k then (a, v) # ps else (a, b) # dict_set k v ps)"

fun dict_del :: "'k \<Rightarrow> ('k \<times> 'v) list \<Rightarrow> ('k \<times> 'v) list" where
  "dict_del k [] = []"
| "dict_del k ((a, b) # ps) = (if a = k then ps else (a, b) # dict_del k ps)"

definition dict_of_pairs :: "('k \<times> 'v) list \<Rightarrow> ('k \<times> 'v) list" where
  "dict_of_pairs ps = foldl (\<lambda>d (k, v). dict_set k v d) [] ps"

subsection \<open>Assignment \<open>d[k] = v\<close>\<close>

lemma map_of_dict_set [simp, dict_simps]: "map_of (dict_set k v ps) = (map_of ps)(k \<mapsto> v)"
  by (induction ps) (auto simp: fun_eq_iff)

lemma keys_dict_set [dict_simps]:
  "map fst (dict_set k v ps) = (if k \<in> set (map fst ps) then map fst ps else map fst ps @ [k])"
proof (induction ps)
  case Nil
  then show ?case by simp
next
  case (Cons p ps)
  then show ?case by (cases p) (auto split: if_splits)
qed

lemma set_keys_dict_set [simp, dict_simps]: "fst ` set (dict_set k v ps) = insert k (fst ` set ps)"
proof (induction ps)
  case Nil
  then show ?case by simp
next
  case (Cons p ps)
  then show ?case by (cases p) auto
qed

lemma length_dict_set:
  "length (dict_set k v ps) = (if map_of ps k = None then Suc (length ps) else length ps)"
  by (induction ps) auto

lemma distinct_dict_set [simp, dict_simps]:
  "distinct (map fst (dict_set k v ps)) = distinct (map fst ps)"
  by (simp add: keys_dict_set)

lemma dict_set_absent [dict_simps]: "map_of ps k = None \<Longrightarrow> dict_set k v ps = ps @ [(k, v)]"
  by (induction ps) auto

lemma dict_set_in_place [dict_simps]:
  "dict_set k v (xs @ (k, w) # ys) = (if map_of xs k = None then xs @ (k, v) # ys else dict_set k v xs @ (k, w) # ys)"
  by (induction xs) auto

lemma dict_set_update [dict_simps]:
  "distinct (map fst ps) \<Longrightarrow> map_of ps k = Some w \<Longrightarrow>
   dict_set k (f w) ps = map (\<lambda>p. if fst p = k then (k, f (snd p)) else p) ps"
proof (induction ps)
  case Nil
  then show ?case by simp
next
  case (Cons p ps)
  obtain a b where p: "p = (a, b)" by fastforce
  show ?case
  proof (cases "a = k")
    case True
    with Cons.prems p have "map_of ps k = None" by (simp add: map_of_eq_None_iff)
    then have "\<forall>q \<in> set ps. fst q \<noteq> k" by (auto dest: weak_map_of_SomeI)
    then have "map (\<lambda>p. if fst p = k then (k, f (snd p)) else p) ps = ps"
      by (simp add: map_idI)
    with True Cons.prems p show ?thesis by simp
  next
    case False
    with Cons p show ?thesis by simp
  qed
qed

lemma dict_set_map_values:
  "map_of ps k = Some w \<Longrightarrow> map fst (dict_set k v ps) = map fst ps"
  by (induction ps) auto

lemma dict_set_append [dict_simps]: "k \<in> fst ` set xs \<Longrightarrow> dict_set k v (xs @ ys) = dict_set k v xs @ ys"
  by (induction k v xs rule: dict_set.induct) force+

lemma set_dict_set_subset: "set (dict_set k v ps) \<subseteq> insert (k, v) (set ps)"
proof (induction ps)
  case Nil
  then show ?case by simp
next
  case (Cons p ps)
  then show ?case by (cases p) auto
qed

subsection \<open>Deletion \<open>del d[k]\<close>\<close>

lemma map_of_dict_del [simp, dict_simps]:
  "distinct (map fst ps) \<Longrightarrow> map_of (dict_del k ps) = (map_of ps)(k := None)"
proof (induction ps)
  case Nil
  then show ?case by simp
next
  case (Cons p ps)
  obtain a b where p: "p = (a, b)" by fastforce
  show ?case
  proof (cases "a = k")
    case True
    with Cons.prems p have "map_of ps k = None" by (simp add: map_of_eq_None_iff)
    with True p show ?thesis by (auto simp: fun_eq_iff)
  next
    case False
    with Cons p show ?thesis by (auto simp: fun_eq_iff)
  qed
qed

lemma keys_dict_del [dict_simps]:
  "distinct (map fst ps) \<Longrightarrow> map fst (dict_del k ps) = removeAll k (map fst ps)"
  by (induction ps) auto

lemma distinct_dict_del [simp, dict_simps]:
  "distinct (map fst ps) \<Longrightarrow> distinct (map fst (dict_del k ps))"
  by (simp add: keys_dict_del distinct_removeAll)

lemma set_dict_del_subset: "set (dict_del k ps) \<subseteq> set ps"
proof (induction ps)
  case Nil
  then show ?case by simp
next
  case (Cons p ps)
  then show ?case by (cases p) auto
qed

lemma dict_del_absent [dict_simps]: "map_of ps k = None \<Longrightarrow> dict_del k ps = ps"
  by (induction ps) auto

lemma length_dict_del:
  "map_of ps k \<noteq> None \<Longrightarrow> Suc (length (dict_del k ps)) = length ps"
proof (induction ps)
  case Nil
  then show ?case by simp
next
  case (Cons p ps)
  then show ?case by (cases p) (auto split: if_splits)
qed

subsection \<open>\<open>dict(pairs)\<close>\<close>

lemma foldl_dict_set_map_of:
  "map_of (foldl (\<lambda>d (k, v). dict_set k v d) d0 ps) = map_of d0 ++ map_of (rev ps)"
  by (induction ps arbitrary: d0) (auto simp: map_add_def fun_eq_iff split: option.splits)

lemma foldl_dict_set_distinct:
  "distinct (map fst d0) \<Longrightarrow> distinct (map fst (foldl (\<lambda>d (k, v). dict_set k v d) d0 ps))"
  by (induction ps arbitrary: d0) auto

lemma map_of_dict_of_pairs [simp, dict_simps]: "map_of (dict_of_pairs ps) = map_of (rev ps)"
  by (simp add: dict_of_pairs_def foldl_dict_set_map_of)

lemma distinct_dict_of_pairs [simp, dict_simps]: "distinct (map fst (dict_of_pairs ps))"
  by (simp add: dict_of_pairs_def foldl_dict_set_distinct)

lemma foldl_dict_set_id:
  "distinct (map fst ps) \<Longrightarrow> \<forall>k \<in> set (map fst ps). map_of d0 k = None \<Longrightarrow>
   foldl (\<lambda>d (k, v). dict_set k v d) d0 ps = d0 @ ps"
proof (induction ps arbitrary: d0)
  case Nil
  then show ?case by simp
next
  case (Cons p ps)
  obtain k v where p: "p = (k, v)" by fastforce
  from Cons.prems p have "dict_set k v d0 = d0 @ [(k, v)]" by (simp add: dict_set_absent)
  moreover from Cons.prems p have "\<forall>k' \<in> set (map fst ps). map_of (d0 @ [(k, v)]) k' = None"
    by (auto simp: map_add_def split: option.splits)
  ultimately show ?case using Cons p by simp
qed

lemma dict_of_pairs_distinct [dict_simps]: "distinct (map fst ps) \<Longrightarrow> dict_of_pairs ps = ps"
  by (simp add: dict_of_pairs_def foldl_dict_set_id)

end
