(* ===== verification/Habits.thy ===== *)
theory Habits
  imports Prelude
begin

text \<open>
  The habit store of \<^verbatim>\<open>src/habit_tracker.py\<close> (class \<^verbatim>\<open>HabitTracker\<close>) on well-formed
  data: \<^verbatim>\<open>self.habits\<close> is a dict from habit name to a record with the fields
  \<^verbatim>\<open>description\<close>, \<^verbatim>\<open>frequency\<close> and \<^verbatim>\<open>completion_count\<close>. Here it is an
  association list \<open>hstore\<close> of \<open>habit\<close> records in insertion order, and each method
  is a function from the store to \<open>herr + _\<close>: \<open>Inl\<close> is the \<^verbatim>\<open>ValueError\<close> the method
  raises, before any mutation. Persistence (\<^verbatim>\<open>save_data\<close>) and ill-typed data are the
  business of the theory \<open>Tracker\<close>, which refines these definitions.
  The theory also holds an abstract specification on finite maps (\<open>*_spec\<close>) and the
  refinement of the store operations to it, the well-formedness invariant, the
  equivalence of the \<^verbatim>\<open>reset_progress\<close> loop with a map over the store, the laws
  of the spec's section 8, and the bound of a count by the number of completions
  (\<open>count_of\<close>, \<open>completion_count_bound\<close>).
\<close>

section \<open>Data\<close>

record habit =
  description :: pystr
  frequency :: pystr
  completion_count :: int

type_synonym hstore = "(pystr \<times> habit) list"

datatype herr = HabitAlreadyExists | HabitNotFound

definition herr_msg :: "herr \<Rightarrow> pystr" where
  "herr_msg e = (case e of
     HabitAlreadyExists \<Rightarrow> ustr ''Habit already exists''
   | HabitNotFound \<Rightarrow> ustr ''Habit not found'')"

section \<open>Operations (methods of HabitTracker)\<close>

definition reset_count :: "habit \<Rightarrow> habit" where
  "reset_count h = h\<lparr>completion_count := 0\<rparr>"

definition new_habit :: "pystr \<Rightarrow> pystr \<Rightarrow> habit" where
  "new_habit d f = \<lparr>description = d, frequency = f, completion_count = 0\<rparr>"

definition add_habit :: "pystr \<Rightarrow> pystr \<Rightarrow> pystr \<Rightarrow> hstore \<Rightarrow> herr + hstore" where
  "add_habit n d f hs =
     (if map_of hs n \<noteq> None then Inl HabitAlreadyExists
      else Inr (dict_set n (new_habit d f) hs))"

text \<open>The defaults of \<^verbatim>\<open>add_habit(self, habit_name, description="", frequency="daily")\<close>.\<close>

definition add_habit_default :: "pystr \<Rightarrow> hstore \<Rightarrow> herr + hstore" where
  "add_habit_default n hs = add_habit n [] (ustr ''daily'') hs"

definition mark_completed :: "pystr \<Rightarrow> hstore \<Rightarrow> herr + hstore" where
  "mark_completed n hs =
     (case map_of hs n of
        None \<Rightarrow> Inl HabitNotFound
      | Some h \<Rightarrow> Inr (dict_set n (h\<lparr>completion_count := completion_count h + 1\<rparr>) hs))"

definition view_progress :: "pystr \<Rightarrow> hstore \<Rightarrow> herr + int" where
  "view_progress n hs =
     (case map_of hs n of
        None \<Rightarrow> Inl HabitNotFound
      | Some h \<Rightarrow> Inr (completion_count h))"

definition remove_habit :: "pystr \<Rightarrow> hstore \<Rightarrow> herr + hstore" where
  "remove_habit n hs = (if map_of hs n = None then Inl HabitNotFound else Inr (dict_del n hs))"

text \<open>
  \<^verbatim>\<open>for habit in self.habits: self.habits[habit]["completion_count"] = 0\<close>: the loop
  runs over the keys as they were when it started, assigning in place.
\<close>

fun reset_loop :: "pystr list \<Rightarrow> hstore \<Rightarrow> hstore" where
  "reset_loop [] hs = hs"
| "reset_loop (k # ks) hs =
     reset_loop ks (case map_of hs k of
                      None \<Rightarrow> hs
                    | Some h \<Rightarrow> dict_set k (h\<lparr>completion_count := 0\<rparr>) hs)"

definition reset_progress :: "hstore \<Rightarrow> hstore" where
  "reset_progress hs = reset_loop (map fst hs) hs"

text \<open>The reference for the loop: every record with its count set to zero, in place.\<close>

definition reset_all :: "hstore \<Rightarrow> hstore" where
  "reset_all hs = map (\<lambda>(k, h). (k, reset_count h)) hs"

section \<open>Operations as one step function\<close>

datatype hop = Add pystr pystr pystr | Complete pystr | View pystr | Remove pystr | Reset

fun hstep :: "hop \<Rightarrow> hstore \<Rightarrow> herr + hstore" where
  "hstep (Add n d f) hs = add_habit n d f hs"
| "hstep (Complete n) hs = mark_completed n hs"
| "hstep (View n) hs = map_sum id (\<lambda>_. hs) (view_progress n hs)"
| "hstep (Remove n) hs = remove_habit n hs"
| "hstep Reset hs = Inr (reset_progress hs)"

text \<open>A script of calls stops at the first exception, as the Python caller would.\<close>

fun hrun :: "hop list \<Rightarrow> hstore \<Rightarrow> herr + hstore" where
  "hrun [] hs = Inr hs"
| "hrun (op # ops) hs = (case hstep op hs of Inl e \<Rightarrow> Inl e | Inr hs' \<Rightarrow> hrun ops hs')"

section \<open>Abstract specification: a finite map from names to habits\<close>

type_synonym habit_map = "pystr \<rightharpoonup> habit"

fun hspec :: "hop \<Rightarrow> habit_map \<Rightarrow> herr + habit_map" where
  "hspec (Add n d f) m = (if n \<in> dom m then Inl HabitAlreadyExists else Inr (m(n \<mapsto> new_habit d f)))"
| "hspec (Complete n) m = (case m n of
       None \<Rightarrow> Inl HabitNotFound
     | Some h \<Rightarrow> Inr (m(n \<mapsto> h\<lparr>completion_count := completion_count h + 1\<rparr>)))"
| "hspec (View n) m = (if n \<in> dom m then Inr m else Inl HabitNotFound)"
| "hspec (Remove n) m = (if n \<in> dom m then Inr (m(n := None)) else Inl HabitNotFound)"
| "hspec Reset m = Inr (map_option reset_count \<circ> m)"

section \<open>Invariant\<close>

definition wf_store :: "hstore \<Rightarrow> bool" where
  "wf_store hs \<longleftrightarrow> distinct (map fst hs) \<and> (\<forall>p \<in> set hs. 0 \<le> completion_count (snd p))"

text \<open>The count a store holds for a name, 0 when the name is absent.\<close>

definition count_of :: "hstore \<Rightarrow> pystr \<Rightarrow> int" where
  "count_of hs n = (case map_of hs n of Some h \<Rightarrow> completion_count h | None \<Rightarrow> 0)"

section \<open>Lemmas\<close>

named_theorems habit_ops "unfolding of the habit store operations"

declare add_habit_def [habit_ops] mark_completed_def [habit_ops] view_progress_def [habit_ops]
  remove_habit_def [habit_ops] reset_progress_def [habit_ops] new_habit_def [habit_ops]

lemma reset_count_idem [simp]: "reset_count (reset_count h) = reset_count h"
  by (simp add: reset_count_def)

lemma reset_count_fields [simp]:
  "description (reset_count h) = description h"
  "frequency (reset_count h) = frequency h"
  "completion_count (reset_count h) = 0"
  by (simp_all add: reset_count_def)

subsection \<open>The reset loop\<close>

lemma reset_loop_step:
  "distinct (map fst hs) \<Longrightarrow>
   (case map_of hs k of None \<Rightarrow> hs | Some h \<Rightarrow> dict_set k (h\<lparr>completion_count := 0\<rparr>) hs)
   = map (\<lambda>p. if fst p = k then (k, reset_count (snd p)) else p) hs"
proof (cases "map_of hs k")
  case None
  then have "\<forall>p \<in> set hs. fst p \<noteq> k" by (auto simp: map_of_eq_None_iff)
  with None show ?thesis by (simp add: map_idI)
next
  case (Some h)
  assume "distinct (map fst hs)"
  with Some dict_set_update [of hs k h reset_count] show ?thesis
    by (simp add: reset_count_def)
qed

lemma reset_loop_map:
  "distinct (map fst hs) \<Longrightarrow>
   reset_loop ks hs = map (\<lambda>p. if fst p \<in> set ks then (fst p, reset_count (snd p)) else p) hs"
proof (induction ks arbitrary: hs)
  case Nil
  then show ?case by simp
next
  case (Cons k ks)
  let ?hs' = "map (\<lambda>p. if fst p = k then (k, reset_count (snd p)) else p) hs"
  have keys: "map fst ?hs' = map fst hs" by (induction hs) auto
  have "distinct (map fst ?hs')" using Cons.prems by (simp only: keys)
  then have "reset_loop ks ?hs' =
      map (\<lambda>p. if fst p \<in> set ks then (fst p, reset_count (snd p)) else p) ?hs'"
    by (rule Cons.IH)
  with Cons.prems show ?case by (simp add: reset_loop_step comp_def)
qed

subsection \<open>Well-formedness\<close>

lemma wf_store_Nil [simp]: "wf_store []"
  by (simp add: wf_store_def)

lemma wf_store_counts: "wf_store hs \<Longrightarrow> map_of hs n = Some h \<Longrightarrow> 0 \<le> completion_count h"
  by (auto simp: wf_store_def dest: map_of_SomeD)

lemma wf_store_dict_set:
  "wf_store hs \<Longrightarrow> 0 \<le> completion_count h \<Longrightarrow> wf_store (dict_set n h hs)"
proof -
  assume wf: "wf_store hs" and h: "0 \<le> completion_count h"
  have "set (dict_set n h hs) \<subseteq> insert (n, h) (set hs)"
    by (rule set_dict_set_subset)
  with wf h show ?thesis by (auto simp: wf_store_def)
qed

lemma wf_store_dict_del: "wf_store hs \<Longrightarrow> wf_store (dict_del n hs)"
proof -
  assume wf: "wf_store hs"
  have "set (dict_del n hs) \<subseteq> set hs"
    by (rule set_dict_del_subset)
  with wf show ?thesis by (auto simp: wf_store_def)
qed

lemma wf_store_reset_all: "wf_store hs \<Longrightarrow> wf_store (reset_all hs)"
proof -
  assume wf: "wf_store hs"
  have "map fst (reset_all hs) = map fst hs" by (induction hs) (auto simp: reset_all_def)
  moreover have "\<forall>p \<in> set (reset_all hs). completion_count (snd p) = 0"
    by (auto simp: reset_all_def)
  ultimately show ?thesis using wf by (simp add: wf_store_def)
qed

subsection \<open>Each operation on its success branch\<close>

lemma add_habit_Inr:
  "add_habit n d f hs = Inr hs' \<longleftrightarrow> map_of hs n = None \<and> hs' = hs @ [(n, new_habit d f)]"
  by (auto simp: add_habit_def dict_set_absent)

lemma add_habit_Inl: "add_habit n d f hs = Inl e \<longleftrightarrow> map_of hs n \<noteq> None \<and> e = HabitAlreadyExists"
  by (auto simp: add_habit_def)

lemma mark_completed_Inr:
  "mark_completed n hs = Inr hs' \<longleftrightarrow>
   (\<exists>h. map_of hs n = Some h \<and> hs' = dict_set n (h\<lparr>completion_count := completion_count h + 1\<rparr>) hs)"
  by (auto simp: mark_completed_def split: option.splits)

lemma mark_completed_Inl: "mark_completed n hs = Inl e \<longleftrightarrow> map_of hs n = None \<and> e = HabitNotFound"
  by (auto simp: mark_completed_def split: option.splits)

lemma remove_habit_Inr: "remove_habit n hs = Inr hs' \<longleftrightarrow> map_of hs n \<noteq> None \<and> hs' = dict_del n hs"
  by (auto simp: remove_habit_def)

lemma remove_habit_Inl: "remove_habit n hs = Inl e \<longleftrightarrow> map_of hs n = None \<and> e = HabitNotFound"
  by (auto simp: remove_habit_def)

lemma view_progress_Inr: "view_progress n hs = Inr c \<longleftrightarrow> (\<exists>h. map_of hs n = Some h \<and> c = completion_count h)"
  by (auto simp: view_progress_def split: option.splits)

lemma view_progress_Inl: "view_progress n hs = Inl e \<longleftrightarrow> map_of hs n = None \<and> e = HabitNotFound"
  by (auto simp: view_progress_def split: option.splits)

lemma hstep_View_Inr:
  "map_sum id (\<lambda>_. hs) (view_progress n hs) = Inr hs' \<longleftrightarrow> map_of hs n \<noteq> None \<and> hs' = hs"
  by (auto simp: view_progress_def split: option.splits)

lemmas hop_results = add_habit_Inr add_habit_Inl mark_completed_Inr mark_completed_Inl
  remove_habit_Inr remove_habit_Inl view_progress_Inr view_progress_Inl hstep_View_Inr

lemma reset_progress_map_of:
  "distinct (map fst hs) \<Longrightarrow> map_of (reset_progress hs) = map_option reset_count \<circ> map_of hs"
proof -
  assume d: "distinct (map fst hs)"
  have "reset_progress hs = map (\<lambda>(k, h). (k, reset_count h)) hs"
    using d by (simp add: reset_progress_def reset_loop_map case_prod_beta')
  then show ?thesis by (simp add: map_of_map)
qed

lemma keys_reset_progress: "distinct (map fst hs) \<Longrightarrow> map fst (reset_progress hs) = map fst hs"
  by (induction hs) (auto simp: reset_progress_def reset_loop_map)

lemma hstep_keys:
  "distinct (map fst hs) \<Longrightarrow> hstep op hs = Inr hs' \<Longrightarrow>
   map fst hs' = (case op of Add n d f \<Rightarrow> map fst hs @ [n]
                            | Remove n \<Rightarrow> removeAll n (map fst hs)
                            | _ \<Rightarrow> map fst hs)"
  by (cases op) (auto simp: hop_results keys_dict_del dict_set_map_values keys_reset_progress)

lemma hstep_wf: "wf_store hs \<Longrightarrow> hstep op hs = Inr hs' \<Longrightarrow> wf_store hs'"
proof (cases op)
  case (Add n d f)
  assume "wf_store hs" "hstep op hs = Inr hs'"
  with Add show ?thesis
    by (auto simp: add_habit_def new_habit_def intro: wf_store_dict_set split: if_splits)
next
  case (Complete n)
  assume wf: "wf_store hs" and st: "hstep op hs = Inr hs'"
  with Complete obtain h where h: "map_of hs n = Some h"
    and hs': "hs' = dict_set n (h\<lparr>completion_count := completion_count h + 1\<rparr>) hs"
    by (auto simp: mark_completed_Inr)
  from wf h have "0 \<le> completion_count h" by (rule wf_store_counts)
  with wf hs' show ?thesis by (simp add: wf_store_dict_set)
next
  case (View n)
  assume "wf_store hs" "hstep op hs = Inr hs'"
  with View show ?thesis by (simp add: hstep_View_Inr)
next
  case (Remove n)
  assume "wf_store hs" "hstep op hs = Inr hs'"
  with Remove show ?thesis by (auto simp: remove_habit_Inr intro: wf_store_dict_del)
next
  case Reset
  assume wf: "wf_store hs" and st: "hstep op hs = Inr hs'"
  from wf have "reset_progress hs = reset_all hs"
    by (simp add: wf_store_def reset_progress_def reset_all_def reset_loop_map case_prod_beta')
  moreover from wf have "wf_store (reset_all hs)" by (rule wf_store_reset_all)
  ultimately show ?thesis using st Reset by simp
qed

lemma hrun_Cons_Inr:
  "hrun (op # ops) hs = Inr hs'' \<longleftrightarrow> (\<exists>hs'. hstep op hs = Inr hs' \<and> hrun ops hs' = Inr hs'')"
  by (auto split: sum.splits)

lemma hrun_append:
  "hrun (ops @ ops') hs = (case hrun ops hs of Inl e \<Rightarrow> Inl e | Inr hs' \<Rightarrow> hrun ops' hs')"
  by (induction ops arbitrary: hs) (auto split: sum.splits)

subsection \<open>Counts along a script\<close>

lemma count_of_nonneg: "wf_store hs \<Longrightarrow> 0 \<le> count_of hs n"
  by (auto simp: count_of_def wf_store_counts split: option.splits)

lemma hstep_count_of:
  "wf_store hs \<Longrightarrow> hstep op hs = Inr hs' \<Longrightarrow> count_of hs' n \<le> count_of hs n + (if op = Complete n then 1 else 0)"
proof (cases op)
  case Reset
  assume wf: "wf_store hs" and st: "hstep op hs = Inr hs'"
  with Reset have "hs' = reset_progress hs" by simp
  with wf count_of_nonneg [OF wf, of n] Reset show ?thesis
    by (auto simp: count_of_def wf_store_def reset_progress_map_of reset_count_def split: option.splits)
next
  case (Remove m)
  assume wf: "wf_store hs" and st: "hstep op hs = Inr hs'"
  with Remove have "hs' = dict_del m hs" by (simp add: remove_habit_Inr)
  with wf count_of_nonneg [OF wf, of n] Remove show ?thesis
    by (auto simp: count_of_def wf_store_def split: option.splits)
qed (auto simp: count_of_def hop_results wf_store_counts new_habit_def split: option.splits if_splits)

lemma hrun_count_of:
  "wf_store hs \<Longrightarrow> hrun ops hs = Inr hs' \<Longrightarrow> count_of hs' n \<le> count_of hs n + int (count_list ops (Complete n))"
proof (induction ops arbitrary: hs)
  case Nil
  then show ?case by simp
next
  case (Cons op ops)
  from Cons.prems(2) obtain hs1 where st: "hstep op hs = Inr hs1" and r: "hrun ops hs1 = Inr hs'"
    unfolding hrun_Cons_Inr by blast
  have "count_of hs' n \<le> count_of hs1 n + int (count_list ops (Complete n))"
    using Cons.IH [OF hstep_wf [OF Cons.prems(1) st] r] .
  with hstep_count_of [OF Cons.prems(1) st, of n] show ?case by auto
qed

section \<open>Properties of the habit store\<close>

text \<open>(C2) Refinement: on a well-formed store every operation, errors included, does
  to the map of habits exactly what the abstract specification \<open>hspec\<close> does.\<close>

theorem hstep_refines:
  "wf_store hs \<Longrightarrow> map_sum id map_of (hstep op hs) = hspec op (map_of hs)"
  by (cases op)
    (auto simp: wf_store_def add_habit_def mark_completed_def view_progress_def
       remove_habit_def reset_progress_map_of domIff split: option.splits)


theorem hstep_refines_witness:
  "wf_store [(ustr ''Exercise'', new_habit (ustr ''Daily workout'') (ustr ''daily''))] \<and>
   map_sum id map_of (hstep (Complete (ustr ''Exercise''))
       [(ustr ''Exercise'', new_habit (ustr ''Daily workout'') (ustr ''daily''))]) =
   hspec (Complete (ustr ''Exercise''))
       (map_of [(ustr ''Exercise'', new_habit (ustr ''Daily workout'') (ustr ''daily''))])"
proof -
  have wf: "wf_store [(ustr ''Exercise'', new_habit (ustr ''Daily workout'') (ustr ''daily''))]"
    by (simp add: wf_store_def new_habit_def)
  from hstep_refines [OF wf, of "Complete (ustr ''Exercise'')"] wf show ?thesis by simp
qed

text \<open>(C4) Invariant: names stay unique and counts non-negative along every script of
  calls that succeeds.\<close>

theorem hrun_wf: "wf_store hs \<Longrightarrow> hrun ops hs = Inr hs' \<Longrightarrow> wf_store hs'"
proof (induction ops arbitrary: hs)
  case Nil
  then show ?case by simp
next
  case (Cons op ops)
  from Cons.prems(2) obtain hs1 where s1: "hstep op hs = Inr hs1" and r: "hrun ops hs1 = Inr hs'"
    by (auto split: sum.splits)
  from Cons.prems(1) s1 have "wf_store hs1" by (rule hstep_wf)
  from this r show ?case by (rule Cons.IH)
qed


theorem hrun_wf_witness:
  "wf_store [] \<and>
   hrun [Add (ustr ''Exercise'') [] (ustr ''daily''), Complete (ustr ''Exercise'')] [] =
     Inr [(ustr ''Exercise'', \<lparr>description = [], frequency = ustr ''daily'', completion_count = 1\<rparr>)] \<and>
   wf_store [(ustr ''Exercise'', \<lparr>description = [], frequency = ustr ''daily'', completion_count = 1\<rparr>)]"
proof -
  have run: "hrun [Add (ustr ''Exercise'') [] (ustr ''daily''), Complete (ustr ''Exercise'')] [] =
     Inr [(ustr ''Exercise'', \<lparr>description = [], frequency = ustr ''daily'', completion_count = 1\<rparr>)]"
    by (simp add: add_habit_def mark_completed_def new_habit_def)
  from hrun_wf [OF wf_store_Nil run] run show ?thesis by simp
qed

text \<open>(C17) \<^verbatim>\<open>add_habit\<close> on a new name appends a record with the given description and
  frequency and a count of 0, which \<^verbatim>\<open>view_progress\<close> then reports.\<close>

theorem add_habit_new:
  "map_of hs n = None \<Longrightarrow>
   \<exists>hs'. add_habit n d f hs = Inr hs' \<and> hs' = hs @ [(n, new_habit d f)] \<and>
     view_progress n hs' = Inr 0 \<and>
     map_option description (map_of hs' n) = Some d \<and> map_option frequency (map_of hs' n) = Some f"
  by (simp add: add_habit_Inr view_progress_def new_habit_def map_add_def)


theorem add_habit_new_witness:
  "map_of [] (ustr ''Exercise'') = (None :: habit option) \<and>
   (\<exists>hs'. add_habit (ustr ''Exercise'') (ustr ''Daily workout'') (ustr ''daily'') [] = Inr hs' \<and>
      hs' = [] @ [(ustr ''Exercise'', new_habit (ustr ''Daily workout'') (ustr ''daily''))] \<and>
      view_progress (ustr ''Exercise'') hs' = Inr 0 \<and>
      map_option description (map_of hs' (ustr ''Exercise'')) = Some (ustr ''Daily workout'') \<and>
      map_option frequency (map_of hs' (ustr ''Exercise'')) = Some (ustr ''daily''))"
  using add_habit_new [of "[]" "ustr ''Exercise''" "ustr ''Daily workout''" "ustr ''daily''"] by simp

text \<open>(C18) \<^verbatim>\<open>add_habit\<close> on a name already present raises "Habit already exists"
  whatever description and frequency are given.\<close>

theorem add_habit_duplicate:
  "map_of hs n \<noteq> None \<Longrightarrow> add_habit n d f hs = Inl HabitAlreadyExists"
  by (simp add: add_habit_Inl)


theorem add_habit_duplicate_witness:
  "map_of [(ustr ''Exercise'', new_habit (ustr ''Daily workout'') (ustr ''daily''))] (ustr ''Exercise'') \<noteq> None \<and>
   add_habit (ustr ''Exercise'') (ustr ''Another description'') (ustr ''weekly'')
     [(ustr ''Exercise'', new_habit (ustr ''Daily workout'') (ustr ''daily''))] = Inl HabitAlreadyExists"
  using add_habit_duplicate [of "[(ustr ''Exercise'', new_habit (ustr ''Daily workout'') (ustr ''daily''))]"
      "ustr ''Exercise''" "ustr ''Another description''" "ustr ''weekly''"]
  by simp

text \<open>(C19) \<^verbatim>\<open>mark_completed\<close>, \<^verbatim>\<open>view_progress\<close> and \<^verbatim>\<open>remove_habit\<close> on an absent
  name raise "Habit not found".\<close>

theorem hstep_not_found:
  "map_of hs n = None \<Longrightarrow>
   hstep (Complete n) hs = Inl HabitNotFound \<and> hstep (View n) hs = Inl HabitNotFound \<and>
   hstep (Remove n) hs = Inl HabitNotFound"
  by (simp add: mark_completed_def view_progress_def remove_habit_def)


theorem hstep_not_found_witness:
  "map_of [] (ustr ''Nonexistent'') = (None :: habit option) \<and>
   hstep (Complete (ustr ''Nonexistent'')) [] = Inl HabitNotFound \<and>
   hstep (View (ustr ''Nonexistent'')) [] = Inl HabitNotFound \<and>
   hstep (Remove (ustr ''Nonexistent'')) [] = Inl HabitNotFound"
  using hstep_not_found [of "[]" "ustr ''Nonexistent''"] by simp

text \<open>(C20) Calling \<^verbatim>\<open>mark_completed\<close> k times on a present habit raises its count by
  exactly k and changes nothing else.\<close>

theorem mark_completed_repeat:
  "map_of hs n = Some h \<Longrightarrow>
   map_sum id map_of (hrun (replicate k (Complete n)) hs) =
     Inr ((map_of hs)(n \<mapsto> h\<lparr>completion_count := completion_count h + int k\<rparr>))"
proof (induction k arbitrary: hs h)
  case 0
  then show ?case by (simp add: map_upd_triv)
next
  case (Suc k)
  let ?h1 = "h\<lparr>completion_count := completion_count h + 1\<rparr>"
  have s1: "hstep (Complete n) hs = Inr (dict_set n ?h1 hs)"
    using Suc.prems by (simp add: mark_completed_def)
  have "map_of (dict_set n ?h1 hs) n = Some ?h1" by simp
  then have ih: "map_sum id map_of (hrun (replicate k (Complete n)) (dict_set n ?h1 hs)) =
      Inr ((map_of (dict_set n ?h1 hs))(n \<mapsto> ?h1\<lparr>completion_count := completion_count ?h1 + int k\<rparr>))"
    by (rule Suc.IH)
  have "map_sum id map_of (hrun (replicate (Suc k) (Complete n)) hs) =
      map_sum id map_of (hrun (replicate k (Complete n)) (dict_set n ?h1 hs))"
    using s1 by simp
  also have "\<dots> = Inr ((map_of (dict_set n ?h1 hs))
      (n \<mapsto> ?h1\<lparr>completion_count := completion_count ?h1 + int k\<rparr>))"
    by (rule ih)
  also have "\<dots> = Inr ((map_of hs)(n \<mapsto> h\<lparr>completion_count := completion_count h + int (Suc k)\<rparr>))"
    by (simp add: add.assoc)
  finally show ?case .
qed


theorem mark_completed_repeat_witness:
  "map_of [(ustr ''Exercise'', new_habit [] (ustr ''daily''))] (ustr ''Exercise'') =
     Some (new_habit [] (ustr ''daily'')) \<and>
   map_sum id map_of (hrun (replicate 3 (Complete (ustr ''Exercise'')))
       [(ustr ''Exercise'', new_habit [] (ustr ''daily''))]) =
     Inr [ustr ''Exercise'' \<mapsto> (new_habit [] (ustr ''daily''))\<lparr>completion_count := 3\<rparr>]"
proof -
  have h: "map_of [(ustr ''Exercise'', new_habit [] (ustr ''daily''))] (ustr ''Exercise'') =
     Some (new_habit [] (ustr ''daily''))" by simp
  from mark_completed_repeat [OF h, of 3] h show ?thesis by (simp add: new_habit_def)
qed

text \<open>(C21) \<^verbatim>\<open>remove_habit\<close> on a present name deletes exactly that record, keeps the
  order of the others, and a later \<^verbatim>\<open>view_progress\<close> raises "Habit not found".\<close>

theorem remove_then_view:
  "distinct (map fst hs) \<Longrightarrow> map_of hs n \<noteq> None \<Longrightarrow>
   \<exists>hs'. remove_habit n hs = Inr hs' \<and> view_progress n hs' = Inl HabitNotFound \<and>
     map fst hs' = removeAll n (map fst hs) \<and> (\<forall>m. m \<noteq> n \<longrightarrow> map_of hs' m = map_of hs m)"
  by (simp add: remove_habit_def view_progress_def keys_dict_del)


theorem remove_then_view_witness:
  "distinct (map fst [(ustr ''Exercise'', new_habit [] (ustr ''daily''))]) \<and>
   map_of [(ustr ''Exercise'', new_habit [] (ustr ''daily''))] (ustr ''Exercise'') \<noteq> None \<and>
   (\<exists>hs'. remove_habit (ustr ''Exercise'') [(ustr ''Exercise'', new_habit [] (ustr ''daily''))] = Inr hs' \<and>
      view_progress (ustr ''Exercise'') hs' = Inl HabitNotFound \<and>
      map fst hs' = removeAll (ustr ''Exercise'') (map fst [(ustr ''Exercise'', new_habit [] (ustr ''daily''))]) \<and>
      (\<forall>m. m \<noteq> ustr ''Exercise'' \<longrightarrow>
         map_of hs' m = map_of [(ustr ''Exercise'', new_habit [] (ustr ''daily''))] m))"
  using remove_then_view [of "[(ustr ''Exercise'', new_habit [] (ustr ''daily''))]" "ustr ''Exercise''"]
  by simp

text \<open>(C22) Equivalence: the \<^verbatim>\<open>reset_progress\<close> loop, which assigns into the dict
  while iterating over its keys, computes the same store as resetting every record in
  place.\<close>

theorem reset_progress_equiv: "distinct (map fst hs) \<Longrightarrow> reset_progress hs = reset_all hs"
  by (simp add: reset_progress_def reset_all_def reset_loop_map case_prod_beta')


theorem reset_progress_equiv_witness:
  "distinct (map fst [(ustr ''Exercise'', new_habit [] (ustr ''daily'')), (ustr ''Meditation'', new_habit [] (ustr ''daily''))]) \<and>
   reset_progress [(ustr ''Exercise'', new_habit [] (ustr ''daily'')), (ustr ''Meditation'', new_habit [] (ustr ''daily''))] =
   reset_all [(ustr ''Exercise'', new_habit [] (ustr ''daily'')), (ustr ''Meditation'', new_habit [] (ustr ''daily''))]"
  using reset_progress_equiv [of "[(ustr ''Exercise'', new_habit [] (ustr ''daily'')), (ustr ''Meditation'', new_habit [] (ustr ''daily''))]"]
  by simp

text \<open>(C23) \<^verbatim>\<open>reset_progress\<close> sets every count to 0, keeps every name, description
  and frequency, and leaves the empty store empty.\<close>

theorem reset_progress_zero:
  "distinct (map fst hs) \<Longrightarrow>
   map fst (reset_progress hs) = map fst hs \<and>
   (\<forall>n h. map_of hs n = Some h \<longrightarrow>
      map_of (reset_progress hs) n = Some (h\<lparr>completion_count := 0\<rparr>) \<and>
      view_progress n (reset_progress hs) = Inr 0) \<and>
   reset_progress [] = []"
proof -
  assume d: "distinct (map fst hs)"
  have "reset_progress [] = []" by (simp add: reset_progress_def)
  with d show ?thesis
    by (simp add: keys_reset_progress reset_progress_map_of view_progress_def reset_count_def)
qed


theorem reset_progress_zero_witness:
  "distinct (map fst [(ustr ''Exercise'', (new_habit [] (ustr ''daily''))\<lparr>completion_count := 2\<rparr>)]) \<and>
   view_progress (ustr ''Exercise'')
     (reset_progress [(ustr ''Exercise'', (new_habit [] (ustr ''daily''))\<lparr>completion_count := 2\<rparr>)]) = Inr 0"
proof -
  have d: "distinct (map fst [(ustr ''Exercise'', (new_habit [] (ustr ''daily''))\<lparr>completion_count := 2\<rparr>)])"
    by simp
  from reset_progress_zero [OF d] d show ?thesis by simp
qed

text \<open>(C24) Insertion order: a successful \<^verbatim>\<open>add_habit\<close> puts the new name last,
  \<^verbatim>\<open>remove_habit\<close> drops its name, and every other operation keeps the order of the
  names, so the serialised file lists habits in the order they were added.\<close>

theorem hstep_order:
  "wf_store hs \<Longrightarrow> hstep op hs = Inr hs' \<Longrightarrow>
   map fst hs' = (case op of Add n d f \<Rightarrow> map fst hs @ [n]
                            | Remove n \<Rightarrow> removeAll n (map fst hs)
                            | _ \<Rightarrow> map fst hs)"
  by (simp add: wf_store_def hstep_keys)


theorem hstep_order_witness:
  "wf_store [(ustr ''Exercise'', new_habit [] (ustr ''daily''))] \<and>
   hstep (Add (ustr ''Meditation'') [] (ustr ''daily'')) [(ustr ''Exercise'', new_habit [] (ustr ''daily''))] =
     Inr [(ustr ''Exercise'', new_habit [] (ustr ''daily'')), (ustr ''Meditation'', new_habit [] (ustr ''daily''))] \<and>
   map fst [(ustr ''Exercise'', new_habit [] (ustr ''daily'')), (ustr ''Meditation'', new_habit [] (ustr ''daily''))] =
     [ustr ''Exercise'', ustr ''Meditation'']"
proof -
  have wf: "wf_store [(ustr ''Exercise'', new_habit [] (ustr ''daily''))]"
    by (simp add: wf_store_def new_habit_def)
  have st: "hstep (Add (ustr ''Meditation'') [] (ustr ''daily'')) [(ustr ''Exercise'', new_habit [] (ustr ''daily''))] =
     Inr [(ustr ''Exercise'', new_habit [] (ustr ''daily'')), (ustr ''Meditation'', new_habit [] (ustr ''daily''))]"
    by (simp add: add_habit_def)
  from hstep_order [OF wf st] wf st show ?thesis by simp
qed

text \<open>(C25) A successful operation never edits the description or frequency of a record
  that survives it, and changes its count only by one increment or a reset to 0.\<close>

theorem hstep_count_step:
  "wf_store hs \<Longrightarrow> hstep op hs = Inr hs' \<Longrightarrow> map_of hs n = Some h \<Longrightarrow>
   map_of hs' n = Some h' \<Longrightarrow>
   description h' = description h \<and> frequency h' = frequency h \<and>
   (completion_count h' = completion_count h \<or> completion_count h' = completion_count h + 1 \<or>
    completion_count h' = 0)"
proof (cases op)
  case Reset
  assume "wf_store hs" "hstep op hs = Inr hs'" "map_of hs n = Some h" "map_of hs' n = Some h'"
  with Reset show ?thesis by (auto simp: wf_store_def reset_progress_map_of)
next
  case (Remove m)
  assume "wf_store hs" "hstep op hs = Inr hs'" "map_of hs n = Some h" "map_of hs' n = Some h'"
  with Remove show ?thesis by (auto simp: wf_store_def remove_habit_Inr split: if_splits)
qed (auto simp: hop_results split: if_splits)


theorem hstep_count_step_witness:
  "wf_store [(ustr ''Exercise'', new_habit [] (ustr ''daily''))] \<and>
   hstep (Complete (ustr ''Exercise'')) [(ustr ''Exercise'', new_habit [] (ustr ''daily''))] =
     Inr [(ustr ''Exercise'', (new_habit [] (ustr ''daily''))\<lparr>completion_count := 1\<rparr>)] \<and>
   completion_count ((new_habit [] (ustr ''daily''))\<lparr>completion_count := 1\<rparr>) =
     completion_count (new_habit [] (ustr ''daily'')) + 1"
proof -
  have wf: "wf_store [(ustr ''Exercise'', new_habit [] (ustr ''daily''))]"
    by (simp add: wf_store_def new_habit_def)
  have st: "hstep (Complete (ustr ''Exercise'')) [(ustr ''Exercise'', new_habit [] (ustr ''daily''))] =
     Inr [(ustr ''Exercise'', (new_habit [] (ustr ''daily''))\<lparr>completion_count := 1\<rparr>)]"
    by (simp add: mark_completed_def new_habit_def)
  have "description ((new_habit [] (ustr ''daily''))\<lparr>completion_count := 1\<rparr>) =
      description (new_habit [] (ustr ''daily''))"
    using hstep_count_step [OF wf st, of "ustr ''Exercise''" "new_habit [] (ustr ''daily'')"
        "(new_habit [] (ustr ''daily''))\<lparr>completion_count := 1\<rparr>"] by simp
  with wf st show ?thesis by (simp add: new_habit_def)
qed

text \<open>(C37) Bound: on a store that starts empty, as on a fresh file, the count of a habit
  after any successful script is at most the number of \<^verbatim>\<open>mark_completed\<close> calls on
  its name in the script.\<close>

theorem completion_count_bound:
  "hrun ops [] = Inr hs \<Longrightarrow> map_of hs n = Some h \<Longrightarrow> completion_count h \<le> int (count_list ops (Complete n))"
  using hrun_count_of [OF wf_store_Nil, of ops hs n] by (simp add: count_of_def)

theorem completion_count_bound_witness:
  "hrun [Add (ustr ''Gym'') [] (ustr ''daily''), Complete (ustr ''Gym''), Reset, Complete (ustr ''Gym'')] [] =
     Inr [(ustr ''Gym'', (new_habit [] (ustr ''daily''))\<lparr>completion_count := 1\<rparr>)] \<and>
   map_of [(ustr ''Gym'', (new_habit [] (ustr ''daily''))\<lparr>completion_count := 1\<rparr>)] (ustr ''Gym'') =
     Some ((new_habit [] (ustr ''daily''))\<lparr>completion_count := 1\<rparr>) \<and>
   completion_count ((new_habit [] (ustr ''daily''))\<lparr>completion_count := 1\<rparr>) \<le>
     int (count_list [Add (ustr ''Gym'') [] (ustr ''daily''), Complete (ustr ''Gym''), Reset, Complete (ustr ''Gym'')]
           (Complete (ustr ''Gym'')))"
proof -
  have h1: "hrun [Add (ustr ''Gym'') [] (ustr ''daily''), Complete (ustr ''Gym''), Reset, Complete (ustr ''Gym'')] [] =
     Inr [(ustr ''Gym'', (new_habit [] (ustr ''daily''))\<lparr>completion_count := 1\<rparr>)]"
    by (simp add: habit_ops reset_count_def)
  have h2: "map_of [(ustr ''Gym'', (new_habit [] (ustr ''daily''))\<lparr>completion_count := 1\<rparr>)] (ustr ''Gym'') =
     Some ((new_habit [] (ustr ''daily''))\<lparr>completion_count := 1\<rparr>)" by simp
  from completion_count_bound [OF h1 h2] h1 h2 show ?thesis by simp
qed

end
