(* ===== verification/Json.thy ===== *)
theory Json
  imports Prelude
begin

text \<open>
  The two library calls that \<^verbatim>\<open>src/habit_tracker.py\<close> uses for persistence, modelled
  from the behaviour of CPython's \<^verbatim>\<open>json\<close> module (they are not under src/):
  \<^item> \<open>jval\<close>: the Python values \<^verbatim>\<open>json.load\<close> builds (None, bool, int, float, str, list,
    dict with insertion order);
  \<^item> \<open>json_dumps\<close>: the text \<^verbatim>\<open>json.dump(obj, file, indent=4)\<close> writes (separators
    \<^verbatim>\<open>","\<close> and \<^verbatim>\<open>": "\<close>, \<^verbatim>\<open>ensure_ascii=True\<close>, so every code point outside
    \<^verbatim>\<open>' '..'~'\<close> is escaped and code points above U+FFFF become surrogate pairs);
  \<^item> \<open>json_loads\<close>: \<^verbatim>\<open>json.load\<close> as the C scanner of \<^verbatim>\<open>_json\<close> runs it (a byte
    order mark, a syntax error or trailing data give \<open>None\<close>, the JSONDecodeError).
  Floats are kept exactly as the decimal \<open>m * 10 ^ e\<close> the text denotes and printed as
  \<open>m\<close>\<^verbatim>\<open>e\<close>\<open>e\<close>; the rounding to a binary double and the shortest \<^verbatim>\<open>repr\<close> that
  Python prints are not modelled (the habit file only holds integers).
\<close>

section \<open>Values\<close>

datatype pyfloat = Finite int int | Infinite bool | NaN

datatype jval =
    JNull
  | JBool bool
  | JInt int
  | JFloat pyfloat
  | JStr pystr
  | JArr "jval list"
  | JObj "(pystr \<times> jval) list"

section \<open>Printing: json.dump(obj, fp, indent=4)\<close>

definition hex_digit :: "nat \<Rightarrow> nat" where
  "hex_digit d = (if d < 10 then 48 + d else 87 + d)"

definition hex4 :: "nat \<Rightarrow> pystr" where
  "hex4 n = [hex_digit (n div 4096 mod 16), hex_digit (n div 256 mod 16),
             hex_digit (n div 16 mod 16), hex_digit (n mod 16)]"

definition u_escape :: "nat \<Rightarrow> pystr" where
  "u_escape n = 92 # 117 # hex4 n"

text \<open>\<^verbatim>\<open>encode_basestring_ascii\<close>, one code point at a time.\<close>

definition esc_char :: "nat \<Rightarrow> pystr" where
  "esc_char c =
     (if 32 \<le> c \<and> c \<le> 126 \<and> c \<noteq> 92 \<and> c \<noteq> 34 then [c]
      else if c = 92 then [92, 92]
      else if c = 34 then [92, 34]
      else if c = 8 then [92, 98]
      else if c = 12 then [92, 102]
      else if c = 10 then [92, 110]
      else if c = 13 then [92, 114]
      else if c = 9 then [92, 116]
      else if c < 65536 then u_escape c
      else u_escape (55296 + (c - 65536) div 1024 mod 1024) @ u_escape (56320 + (c - 65536) mod 1024))"

definition encode_str :: "pystr \<Rightarrow> pystr" where
  "encode_str s = 34 # concat (map esc_char s) @ [34]"

fun dec_digits :: "nat \<Rightarrow> pystr" where
  "dec_digits n = (if n < 10 then [48 + n] else dec_digits (n div 10) @ [48 + n mod 10])"

definition int_repr :: "int \<Rightarrow> pystr" where
  "int_repr i = (if i < 0 then 45 # dec_digits (nat (- i)) else dec_digits (nat i))"

definition float_repr :: "pyfloat \<Rightarrow> pystr" where
  "float_repr f = (case f of
     Finite m e \<Rightarrow> int_repr m @ 101 # int_repr e
   | Infinite pos \<Rightarrow> (if pos then ustr ''Infinity'' else ustr ''-Infinity'')
   | NaN \<Rightarrow> ustr ''NaN'')"

text \<open>\<open>sep.join(parts)\<close>.\<close>

fun join_with :: "pystr \<Rightarrow> pystr list \<Rightarrow> pystr" where
  "join_with sep [] = []"
| "join_with sep [x] = x"
| "join_with sep (x # xs) = x @ sep @ join_with sep xs"

definition newline_indent :: "nat \<Rightarrow> pystr" where
  "newline_indent l = 10 # replicate (4 * l) 32"

fun dumps_at :: "nat \<Rightarrow> jval \<Rightarrow> pystr" where
  "dumps_at l JNull = ustr ''null''"
| "dumps_at l (JBool b) = (if b then ustr ''true'' else ustr ''false'')"
| "dumps_at l (JInt i) = int_repr i"
| "dumps_at l (JFloat f) = float_repr f"
| "dumps_at l (JStr s) = encode_str s"
| "dumps_at l (JArr xs) =
     (if xs = [] then ustr ''[]''
      else 91 # newline_indent (Suc l) @
           join_with (44 # newline_indent (Suc l)) (map (dumps_at (Suc l)) xs) @
           newline_indent l @ [93])"
| "dumps_at l (JObj ps) =
     (if ps = [] then ustr ''{}''
      else 123 # newline_indent (Suc l) @
           join_with (44 # newline_indent (Suc l))
             (map (\<lambda>(k, v). encode_str k @ [58, 32] @ dumps_at (Suc l) v) ps) @
           newline_indent l @ [125])"

definition json_dumps :: "jval \<Rightarrow> pystr" where
  "json_dumps v = dumps_at 0 v"

section \<open>Parsing: json.load(fp) as the C scanner runs it\<close>

definition is_ws :: "nat \<Rightarrow> bool" where
  "is_ws c \<longleftrightarrow> c = 32 \<or> c = 9 \<or> c = 10 \<or> c = 13"

fun skip_ws :: "pystr \<Rightarrow> pystr" where
  "skip_ws [] = []"
| "skip_ws (c # cs) = (if is_ws c then skip_ws cs else c # cs)"

definition is_digit :: "nat \<Rightarrow> bool" where
  "is_digit c \<longleftrightarrow> 48 \<le> c \<and> c \<le> 57"

definition hex_val :: "nat \<Rightarrow> nat option" where
  "hex_val c =
     (if 48 \<le> c \<and> c \<le> 57 then Some (c - 48)
      else if 97 \<le> c \<and> c \<le> 102 then Some (c - 87)
      else if 65 \<le> c \<and> c \<le> 70 then Some (c - 55)
      else None)"

fun hex4_val :: "pystr \<Rightarrow> nat option" where
  "hex4_val (a # b # c # d # _) =
     (case (hex_val a, hex_val b, hex_val c, hex_val d) of
        (Some w, Some x, Some y, Some z) \<Rightarrow> Some (4096 * w + 256 * x + 16 * y + z)
      | _ \<Rightarrow> None)"
| "hex4_val _ = None"

definition simple_escape :: "nat \<Rightarrow> nat option" where
  "simple_escape e =
     (if e = 34 then Some 34 else if e = 92 then Some 92 else if e = 47 then Some 47
      else if e = 98 then Some 8 else if e = 102 then Some 12 else if e = 110 then Some 10
      else if e = 114 then Some 13 else if e = 116 then Some 9 else None)"

definition is_high :: "nat \<Rightarrow> bool" where
  "is_high c \<longleftrightarrow> 55296 \<le> c \<and> c \<le> 56319"

definition is_low :: "nat \<Rightarrow> bool" where
  "is_low c \<longleftrightarrow> 56320 \<le> c \<and> c \<le> 57343"

text \<open>
  \<^verbatim>\<open>scanstring_unicode\<close> (strict mode) after the opening quote; \<open>acc\<close> holds the code
  points read so far, last first. A \<^verbatim>\<open>\uXXXX\<close> escape needs one more character after
  its digits; a high surrogate followed by a second \<^verbatim>\<open>\u\<close> escape (with a character
  after it) reads that escape's digits and joins the two when it is a low surrogate.
\<close>

function scan_str :: "pystr \<Rightarrow> pystr \<Rightarrow> (pystr \<times> pystr) option" where
  "scan_str acc [] = None"
| "scan_str acc (c # cs) =
     (if c = 34 then Some (rev acc, cs)
      else if c = 92 then
        (case cs of
           [] \<Rightarrow> None
         | e # r \<Rightarrow>
             if e = 117 then
               (if length r < 5 then None
                else case hex4_val r of
                  None \<Rightarrow> None
                | Some v \<Rightarrow>
                    if is_high v \<and> 6 < length (drop 4 r) \<and> take 2 (drop 4 r) = [92, 117] then
                      (case hex4_val (drop 6 r) of
                         None \<Rightarrow> None
                       | Some v2 \<Rightarrow>
                           if is_low v2
                           then scan_str ((65536 + (v - 55296) * 1024 + (v2 - 56320)) # acc) (drop 10 r)
                           else scan_str (v # acc) (drop 4 r))
                    else scan_str (v # acc) (drop 4 r))
             else (case simple_escape e of
                     None \<Rightarrow> None
                   | Some x \<Rightarrow> scan_str (x # acc) r))
      else if c < 32 then None
      else scan_str (c # acc) cs)"
  by pat_completeness auto
termination
  by (relation "measure (\<lambda>(acc, s). length s)") auto

text \<open>\<^verbatim>\<open>_match_number_unicode\<close>: \<open>-?(0|[1-9][0-9]* )(.[0-9]+)?([eE][-+]?[0-9]+)?\<close>.\<close>

definition digits_val :: "pystr \<Rightarrow> nat" where
  "digits_val ds = foldl (\<lambda>n d. 10 * n + (d - 48)) 0 ds"

fun scan_frac :: "pystr \<Rightarrow> pystr \<times> pystr" where
  "scan_frac (p # d # r) =
     (if p = 46 \<and> is_digit d then (d # takeWhile is_digit r, dropWhile is_digit r)
      else ([], p # d # r))"
| "scan_frac r = ([], r)"

fun scan_exp :: "pystr \<Rightarrow> (int \<times> pystr) option" where
  "scan_exp [] = None"
| "scan_exp (e # r) =
     (if e = 101 \<or> e = 69 then
        (let (sg, r1) = (case r of
                           [] \<Rightarrow> (1, r)
                         | c # r' \<Rightarrow> if c = 45 then (-1, r') else if c = 43 then (1, r') else (1, r));
             ds = takeWhile is_digit r1
         in if ds = [] then None else Some (sg * int (digits_val ds), dropWhile is_digit r1))
      else None)"

definition scan_number :: "pystr \<Rightarrow> (jval \<times> pystr) option" where
  "scan_number s =
     (let (neg, s1) = (case s of [] \<Rightarrow> (False, s) | c # r \<Rightarrow> if c = 45 then (True, r) else (False, s))
      in case s1 of
           [] \<Rightarrow> None
         | c # r \<Rightarrow>
             if \<not> is_digit c then None
             else
               let ip = (if c = 48 then [c] else c # takeWhile is_digit r);
                   r1 = (if c = 48 then r else dropWhile is_digit r);
                   (fp, r2) = scan_frac r1;
                   sg = (if neg then -1 else 1)
               in case scan_exp r2 of
                    None \<Rightarrow>
                      if fp = [] then Some (JInt (sg * int (digits_val ip)), r2)
                      else Some (JFloat (Finite (sg * int (digits_val (ip @ fp))) (- int (length fp))), r2)
                  | Some (ex, r3) \<Rightarrow>
                      Some (JFloat (Finite (sg * int (digits_val (ip @ fp))) (ex - int (length fp))), r3))"

definition scan_word :: "pystr \<Rightarrow> pystr \<Rightarrow> pystr option" where
  "scan_word w s = (if take (length w) s = w then Some (drop (length w) s) else None)"

text \<open>The named constants, tried before a number as \<^verbatim>\<open>scan_once_unicode\<close> does.\<close>

definition scan_const :: "pystr \<Rightarrow> (jval \<times> pystr) option" where
  "scan_const s =
     (case scan_word (ustr ''null'') s of Some r \<Rightarrow> Some (JNull, r) | None \<Rightarrow>
      case scan_word (ustr ''true'') s of Some r \<Rightarrow> Some (JBool True, r) | None \<Rightarrow>
      case scan_word (ustr ''false'') s of Some r \<Rightarrow> Some (JBool False, r) | None \<Rightarrow>
      case scan_word (ustr ''NaN'') s of Some r \<Rightarrow> Some (JFloat NaN, r) | None \<Rightarrow>
      case scan_word (ustr ''Infinity'') s of Some r \<Rightarrow> Some (JFloat (Infinite True), r) | None \<Rightarrow>
      case scan_word (ustr ''-Infinity'') s of Some r \<Rightarrow> Some (JFloat (Infinite False), r) | None \<Rightarrow>
      None)"

datatype perr = DecodeError | OutOfFuel

text \<open>
  \<^verbatim>\<open>scan_once_unicode\<close>, \<^verbatim>\<open>_parse_array_unicode\<close> and \<^verbatim>\<open>_parse_object_unicode\<close>,
  with fuel: \<open>parr\<close> starts at an element, \<open>pobj\<close> at a key; an object assigns its
  pairs into a dict, so a repeated key keeps its first position and its last value.
\<close>

fun pval :: "nat \<Rightarrow> pystr \<Rightarrow> perr + (jval \<times> pystr)"
and parr :: "nat \<Rightarrow> jval list \<Rightarrow> pystr \<Rightarrow> perr + (jval \<times> pystr)"
and pobj :: "nat \<Rightarrow> (pystr \<times> jval) list \<Rightarrow> pystr \<Rightarrow> perr + (jval \<times> pystr)" where
  "pval 0 s = Inl OutOfFuel"
| "pval (Suc n) [] = Inl DecodeError"
| "pval (Suc n) (c # r) =
     (if c = 34 then (case scan_str [] r of None \<Rightarrow> Inl DecodeError | Some (x, r') \<Rightarrow> Inr (JStr x, r'))
      else if c = 123 then
        (case skip_ws r of
           [] \<Rightarrow> Inl DecodeError
         | d # r' \<Rightarrow> if d = 125 then Inr (JObj [], r') else pobj n [] (d # r'))
      else if c = 91 then
        (case skip_ws r of
           [] \<Rightarrow> Inl DecodeError
         | d # r' \<Rightarrow> if d = 93 then Inr (JArr [], r') else parr n [] (d # r'))
      else (case scan_const (c # r) of
              Some (v, r') \<Rightarrow> Inr (v, r')
            | None \<Rightarrow> (case scan_number (c # r) of
                         None \<Rightarrow> Inl DecodeError
                       | Some (v, r') \<Rightarrow> Inr (v, r'))))"
| "parr 0 acc s = Inl OutOfFuel"
| "parr (Suc n) acc s =
     (case pval n s of
        Inl e \<Rightarrow> Inl e
      | Inr (v, r) \<Rightarrow>
          (case skip_ws r of
             [] \<Rightarrow> Inl DecodeError
           | d # r' \<Rightarrow>
               if d = 93 then Inr (JArr (acc @ [v]), r')
               else if d = 44 then parr n (acc @ [v]) (skip_ws r')
               else Inl DecodeError))"
| "pobj 0 acc s = Inl OutOfFuel"
| "pobj (Suc n) acc [] = Inl DecodeError"
| "pobj (Suc n) acc (c # r) =
     (if c \<noteq> 34 then Inl DecodeError
      else case scan_str [] r of
        None \<Rightarrow> Inl DecodeError
      | Some (k, r1) \<Rightarrow>
          (case skip_ws r1 of
             [] \<Rightarrow> Inl DecodeError
           | d # r2 \<Rightarrow>
               if d \<noteq> 58 then Inl DecodeError
               else case pval n (skip_ws r2) of
                 Inl e \<Rightarrow> Inl e
               | Inr (v, r3) \<Rightarrow>
                   (case skip_ws r3 of
                      [] \<Rightarrow> Inl DecodeError
                    | d' # r4 \<Rightarrow>
                        if d' = 125 then Inr (JObj (dict_set k v acc), r4)
                        else if d' = 44 then pobj n (dict_set k v acc) (skip_ws r4)
                        else Inl DecodeError)))"

text \<open>
  \<^verbatim>\<open>json.loads\<close>: a leading U+FEFF is refused, whitespace is skipped on both sides of
  one value and nothing may follow it. \<open>Suc (2 * length s)\<close> is enough fuel for every
  input (lemma \<open>pval_fuel_enough\<close>), so \<open>None\<close> is exactly a JSONDecodeError.
\<close>

definition json_loads :: "pystr \<Rightarrow> jval option" where
  "json_loads s =
     (if s \<noteq> [] \<and> hd s = 65279 then None
      else case pval (Suc (2 * length s)) (skip_ws s) of
             Inr (v, r) \<Rightarrow> if skip_ws r = [] then Some v else None
           | Inl _ \<Rightarrow> None)"

section \<open>Lemmas\<close>

text \<open>Evaluation at a numeral fuel, for closed instances.\<close>

lemmas pval_numeral [simp] = pval.simps(2,3) [of "pred_numeral k" for k, folded numeral_eq_Suc]
  and parr_numeral [simp] = parr.simps(2) [of "pred_numeral k" for k, folded numeral_eq_Suc]
  and pobj_numeral [simp] = pobj.simps(2,3) [of "pred_numeral k" for k, folded numeral_eq_Suc]

lemma is_ws_simps [simp]:
  "is_ws 32" "is_ws 9" "is_ws 10" "is_ws 13"
  "c \<noteq> 32 \<Longrightarrow> c \<noteq> 9 \<Longrightarrow> c \<noteq> 10 \<Longrightarrow> c \<noteq> 13 \<Longrightarrow> \<not> is_ws c"
  by (simp_all add: is_ws_def)

end
