(* ===== verification/Tracker.thy ===== *)
theory Tracker
  imports Habits Json
begin

text \<open>
  The class \<^verbatim>\<open>HabitTracker\<close> of \<^verbatim>\<open>src/habit_tracker.py\<close> as Python runs it. The object
  holds \<^verbatim>\<open>self.filename\<close> and \<^verbatim>\<open>self.habits\<close>, which is whatever \<^verbatim>\<open>json.load\<close>
  returned (a \<open>jval\<close>, not necessarily a dict of habit records); the file system maps
  paths to text files or to files the process may not open. A method is a function from
  the state \<open>sys\<close> to an outcome and the new state: the state is returned also when an
  exception is raised, because Python keeps the mutations made before the raise.
  Subscription, membership, \<^verbatim>\<open>+= 1\<close> and iteration follow Python's semantics on each
  kind of value, so every TypeError, KeyError and IndexError of the code is a branch of
  the model. The theory proves that on well-formed data each method is the typed
  operation of \<open>Habits\<close> followed by one whole-file save, that the shape of a
  stored tracker (\<open>is_store\<close>) is kept by every method also when the save fails, and
  what happens otherwise.
\<close>

section \<open>State and exceptions\<close>

datatype fentry = Text pystr | NoAccess

type_synonym disk = "pystr \<rightharpoonup> fentry"

record sys =
  filename :: pystr
  habits :: jval
  disk :: disk

datatype exc =
    ValueError pystr
  | TypeError
  | KeyError jval
  | IndexError
  | PermissionError

type_synonym 'a outcome = "(exc + 'a) \<times> sys"

text \<open>The three keys of a habit record.\<close>

definition key_description :: pystr where "key_description = ustr ''description''"
definition key_frequency :: pystr where "key_frequency = ustr ''frequency''"
definition key_count :: pystr where "key_count = ustr ''completion_count''"

section \<open>Python operations on values\<close>

fun str_contains :: "pystr \<Rightarrow> pystr \<Rightarrow> bool" where
  "str_contains k [] = (k = [])"
| "str_contains k (c # cs) = (take (length k) (c # cs) = k \<or> str_contains k cs)"

text \<open>\<^verbatim>\<open>habit_name in self.habits\<close> for a str \<^verbatim>\<open>habit_name\<close>.\<close>

definition py_contains :: "pystr \<Rightarrow> jval \<Rightarrow> exc + bool" where
  "py_contains k v = (case v of
     JObj ps \<Rightarrow> Inr (map_of ps k \<noteq> None)
   | JArr xs \<Rightarrow> Inr (JStr k \<in> set xs)
   | JStr s \<Rightarrow> Inr (str_contains k s)
   | _ \<Rightarrow> Inl TypeError)"

text \<open>\<^verbatim>\<open>v[key]\<close>: a dict looks the key up; a list takes an int (or bool) index,
  negative from the end; everything else raises TypeError.\<close>

definition py_index :: "jval \<Rightarrow> int option" where
  "py_index k = (case k of JInt i \<Rightarrow> Some i | JBool b \<Rightarrow> Some (of_bool b) | _ \<Rightarrow> None)"

definition list_pos :: "nat \<Rightarrow> int \<Rightarrow> nat option" where
  "list_pos n i = (let j = (if i < 0 then int n + i else i) in
                   if 0 \<le> j \<and> j < int n then Some (nat j) else None)"

definition py_getitem :: "jval \<Rightarrow> jval \<Rightarrow> exc + jval" where
  "py_getitem v k = (case v of
     JObj ps \<Rightarrow> (case k of
        JStr s \<Rightarrow> (case map_of ps s of None \<Rightarrow> Inl (KeyError k) | Some x \<Rightarrow> Inr x)
      | _ \<Rightarrow> Inl (KeyError k))
   | JArr xs \<Rightarrow> (case py_index k of
        None \<Rightarrow> Inl TypeError
      | Some i \<Rightarrow> (case list_pos (length xs) i of None \<Rightarrow> Inl IndexError | Some p \<Rightarrow> Inr (xs ! p)))
   | _ \<Rightarrow> Inl TypeError)"

text \<open>\<^verbatim>\<open>v[key] = x\<close> and \<^verbatim>\<open>del v[key]\<close> for a str key, the only kind the class uses
  on a dict.\<close>

definition py_setitem :: "jval \<Rightarrow> pystr \<Rightarrow> jval \<Rightarrow> exc + jval" where
  "py_setitem v k x = (case v of
     JObj ps \<Rightarrow> Inr (JObj (dict_set k x ps))
   | _ \<Rightarrow> Inl TypeError)"

definition py_delitem :: "jval \<Rightarrow> pystr \<Rightarrow> exc + jval" where
  "py_delitem v k = (case v of
     JObj ps \<Rightarrow> (if map_of ps k = None then Inl (KeyError (JStr k)) else Inr (JObj (dict_del k ps)))
   | _ \<Rightarrow> Inl TypeError)"

text \<open>\<^verbatim>\<open>c += 1\<close>: int, bool (an int subclass) and float support it.\<close>

definition float_add_one :: "pyfloat \<Rightarrow> pyfloat" where
  "float_add_one f = (case f of
     Finite m e \<Rightarrow> (if 0 \<le> e then Finite (m * 10 ^ nat e + 1) 0 else Finite (m + 10 ^ nat (- e)) e)
   | _ \<Rightarrow> f)"

definition py_add_one :: "jval \<Rightarrow> exc + jval" where
  "py_add_one v = (case v of
     JInt i \<Rightarrow> Inr (JInt (i + 1))
   | JBool b \<Rightarrow> Inr (JInt (of_bool b + 1))
   | JFloat f \<Rightarrow> Inr (JFloat (float_add_one f))
   | _ \<Rightarrow> Inl TypeError)"

section \<open>Persistence: load_data and save_data\<close>

text \<open>\<^verbatim>\<open>open(self.filename, 'r')\<close> then \<^verbatim>\<open>json.load\<close>; FileNotFoundError and
  JSONDecodeError give \<^verbatim>\<open>{}\<close>, any other error propagates.\<close>

definition load_data :: "pystr \<Rightarrow> disk \<Rightarrow> exc + jval" where
  "load_data fn d = (case d fn of
     None \<Rightarrow> Inr (JObj [])
   | Some NoAccess \<Rightarrow> Inl PermissionError
   | Some (Text t) \<Rightarrow> (case json_loads t of None \<Rightarrow> Inr (JObj []) | Some v \<Rightarrow> Inr v))"

text \<open>\<^verbatim>\<open>open(self.filename, 'w')\<close> then \<^verbatim>\<open>json.dump(self.habits, file, indent=4)\<close>:
  the whole file is rewritten.\<close>

definition save_data :: "sys \<Rightarrow> unit outcome" where
  "save_data s = (case disk s (filename s) of
     Some NoAccess \<Rightarrow> (Inl PermissionError, s)
   | _ \<Rightarrow> (Inr (), s\<lparr>disk := (disk s)(filename s \<mapsto> Text (json_dumps (habits s)))\<rparr>))"

text \<open>\<^verbatim>\<open>HabitTracker(filename)\<close>: the constructor loads the file once.\<close>

definition tracker_init :: "pystr \<Rightarrow> disk \<Rightarrow> exc + sys" where
  "tracker_init fn d = (case load_data fn d of
     Inl e \<Rightarrow> Inl e
   | Inr v \<Rightarrow> Inr \<lparr>filename = fn, habits = v, disk = d\<rparr>)"

section \<open>The methods\<close>

definition new_record :: "pystr \<Rightarrow> pystr \<Rightarrow> jval" where
  "new_record d f = JObj [(key_description, JStr d), (key_frequency, JStr f),
                          (key_count, JInt 0)]"

definition tracker_add_habit :: "pystr \<Rightarrow> pystr \<Rightarrow> pystr \<Rightarrow> sys \<Rightarrow> jval outcome" where
  "tracker_add_habit n d f s = (case py_contains n (habits s) of
     Inl e \<Rightarrow> (Inl e, s)
   | Inr True \<Rightarrow> (Inl (ValueError (ustr ''Habit already exists'')), s)
   | Inr False \<Rightarrow> (case py_setitem (habits s) n (new_record d f) of
       Inl e \<Rightarrow> (Inl e, s)
     | Inr h \<Rightarrow> (case save_data (s\<lparr>habits := h\<rparr>) of (r, s') \<Rightarrow> (map_sum id (\<lambda>_. JNull) r, s'))))"

definition tracker_mark_completed :: "pystr \<Rightarrow> sys \<Rightarrow> jval outcome" where
  "tracker_mark_completed n s = (case py_contains n (habits s) of
     Inl e \<Rightarrow> (Inl e, s)
   | Inr False \<Rightarrow> (Inl (ValueError (ustr ''Habit not found'')), s)
   | Inr True \<Rightarrow> (case py_getitem (habits s) (JStr n) of
       Inl e \<Rightarrow> (Inl e, s)
     | Inr t \<Rightarrow> (case py_getitem t (JStr key_count) of
         Inl e \<Rightarrow> (Inl e, s)
       | Inr c \<Rightarrow> (case py_add_one c of
           Inl e \<Rightarrow> (Inl e, s)
         | Inr c' \<Rightarrow> (case py_setitem t key_count c' of
             Inl e \<Rightarrow> (Inl e, s)
           | Inr t' \<Rightarrow> (case py_setitem (habits s) n t' of
               Inl e \<Rightarrow> (Inl e, s)
             | Inr h \<Rightarrow> (case save_data (s\<lparr>habits := h\<rparr>) of
                          (r, s') \<Rightarrow> (map_sum id (\<lambda>_. JNull) r, s'))))))))"

definition tracker_view_progress :: "pystr \<Rightarrow> sys \<Rightarrow> jval outcome" where
  "tracker_view_progress n s = (case py_contains n (habits s) of
     Inl e \<Rightarrow> (Inl e, s)
   | Inr False \<Rightarrow> (Inl (ValueError (ustr ''Habit not found'')), s)
   | Inr True \<Rightarrow> (case py_getitem (habits s) (JStr n) of
       Inl e \<Rightarrow> (Inl e, s)
     | Inr t \<Rightarrow> (case py_getitem t (JStr key_count) of
         Inl e \<Rightarrow> (Inl e, s)
       | Inr c \<Rightarrow> (Inr c, s))))"

definition tracker_remove_habit :: "pystr \<Rightarrow> sys \<Rightarrow> jval outcome" where
  "tracker_remove_habit n s = (case py_contains n (habits s) of
     Inl e \<Rightarrow> (Inl e, s)
   | Inr False \<Rightarrow> (Inl (ValueError (ustr ''Habit not found'')), s)
   | Inr True \<Rightarrow> (case py_delitem (habits s) n of
       Inl e \<Rightarrow> (Inl e, s)
     | Inr h \<Rightarrow> (case save_data (s\<lparr>habits := h\<rparr>) of (r, s') \<Rightarrow> (map_sum id (\<lambda>_. JNull) r, s'))))"

text \<open>
  \<^verbatim>\<open>for habit in self.habits: self.habits[habit]["completion_count"] = 0\<close>. Over a dict
  the loop visits the keys; over a list it visits the elements by position, each used as
  an index into the list itself; over a str it visits one-character strings, which are
  no valid index; anything else is not iterable. Each assignment mutates the record in
  place, so an exception part-way leaves the earlier records reset.
\<close>

fun reset_dict :: "pystr list \<Rightarrow> (pystr \<times> jval) list \<Rightarrow> exc option \<times> (pystr \<times> jval) list" where
  "reset_dict [] ps = (None, ps)"
| "reset_dict (k # ks) ps = (case map_of ps k of
     None \<Rightarrow> (Some (KeyError (JStr k)), ps)
   | Some t \<Rightarrow> (case py_setitem t key_count (JInt 0) of
       Inl e \<Rightarrow> (Some e, ps)
     | Inr t' \<Rightarrow> reset_dict ks (dict_set k t' ps)))"

function reset_list :: "nat \<Rightarrow> jval list \<Rightarrow> exc option \<times> jval list" where
  "reset_list i xs =
     (if length xs \<le> i then (None, xs)
      else case py_index (xs ! i) of
        None \<Rightarrow> (Some TypeError, xs)
      | Some j \<Rightarrow> (case list_pos (length xs) j of
          None \<Rightarrow> (Some IndexError, xs)
        | Some p \<Rightarrow> (case py_setitem (xs ! p) key_count (JInt 0) of
            Inl e \<Rightarrow> (Some e, xs)
          | Inr t' \<Rightarrow> reset_list (Suc i) (xs[p := t']))))"
  by pat_completeness auto
termination
  by (relation "measure (\<lambda>(i, xs). length xs - i)") auto

definition reset_value :: "jval \<Rightarrow> exc option \<times> jval" where
  "reset_value v = (case v of
     JObj ps \<Rightarrow> (case reset_dict (map fst ps) ps of (e, ps') \<Rightarrow> (e, JObj ps'))
   | JArr xs \<Rightarrow> (case reset_list 0 xs of (e, xs') \<Rightarrow> (e, JArr xs'))
   | JStr s \<Rightarrow> (if s = [] then (None, v) else (Some TypeError, v))
   | _ \<Rightarrow> (Some TypeError, v))"

definition tracker_reset_progress :: "sys \<Rightarrow> jval outcome" where
  "tracker_reset_progress s = (case reset_value (habits s) of
     (Some e, h) \<Rightarrow> (Inl e, s\<lparr>habits := h\<rparr>)
   | (None, h) \<Rightarrow> (case save_data (s\<lparr>habits := h\<rparr>) of (r, s') \<Rightarrow> (map_sum id (\<lambda>_. JNull) r, s')))"

text \<open>The methods as one step on the operations of \<open>Habits\<close>; the value returned is
  the method's Python return value (None for the mutators).\<close>

fun tracker_call :: "hop \<Rightarrow> sys \<Rightarrow> jval outcome" where
  "tracker_call (Add n d f) s = tracker_add_habit n d f s"
| "tracker_call (Complete n) s = tracker_mark_completed n s"
| "tracker_call (View n) s = tracker_view_progress n s"
| "tracker_call (Remove n) s = tracker_remove_habit n s"
| "tracker_call Reset s = tracker_reset_progress s"

text \<open>Methods called one after another by a caller that does not catch: the run stops at
  the first exception, which it returns with the state at that point.\<close>

fun tracker_run :: "hop list \<Rightarrow> sys \<Rightarrow> exc option \<times> sys" where
  "tracker_run [] s = (None, s)"
| "tracker_run (op # ops) s =
     (case tracker_call op s of (Inl e, s') \<Rightarrow> (Some e, s') | (Inr _, s') \<Rightarrow> tracker_run ops s')"

section \<open>The typed store inside the dynamic one\<close>

definition habit_json :: "habit \<Rightarrow> jval" where
  "habit_json h = JObj [(key_description, JStr (description h)), (key_frequency, JStr (frequency h)),
                        (key_count, JInt (completion_count h))]"

definition store_json :: "hstore \<Rightarrow> jval" where
  "store_json hs = JObj (map (\<lambda>(k, h). (k, habit_json h)) hs)"

definition writable :: "sys \<Rightarrow> bool" where
  "writable s \<longleftrightarrow> disk s (filename s) \<noteq> Some NoAccess"

definition persist :: "hstore \<Rightarrow> sys \<Rightarrow> sys" where
  "persist hs s = s\<lparr>habits := store_json hs,
                    disk := (disk s)(filename s \<mapsto> Text (json_dumps (store_json hs)))\<rparr>"

text \<open>What the class promises (section 4.1 of the spec): the typed operation; on success
  a mutator saves the whole store once, and an error changes nothing.\<close>

fun tracker_spec :: "hop \<Rightarrow> hstore \<Rightarrow> sys \<Rightarrow> jval outcome" where
  "tracker_spec (View n) hs s = (case view_progress n hs of
     Inl e \<Rightarrow> (Inl (ValueError (herr_msg e)), s)
   | Inr c \<Rightarrow> (Inr (JInt c), s))"
| "tracker_spec op hs s = (case hstep op hs of
     Inl e \<Rightarrow> (Inl (ValueError (herr_msg e)), s)
   | Inr hs' \<Rightarrow> (Inr JNull, persist hs' s))"

definition synced :: "sys \<Rightarrow> bool" where
  "synced s \<longleftrightarrow> disk s (filename s) = Some (Text (json_dumps (habits s)))"

text \<open>The shape \<^verbatim>\<open>self.habits\<close> has when the tracker wrote it: a dict of distinct names
  to records with a str description, a str frequency and an int count \<open>\<ge> 0\<close>, in this
  order.\<close>

fun is_habit_json :: "jval \<Rightarrow> bool" where
  "is_habit_json (JObj [(k1, JStr _), (k2, JStr _), (k3, JInt c)]) \<longleftrightarrow>
     k1 = key_description \<and> k2 = key_frequency \<and> k3 = key_count \<and> 0 \<le> c"
| "is_habit_json _ \<longleftrightarrow> False"

definition is_store :: "jval \<Rightarrow> bool" where
  "is_store v = (case v of
     JObj ps \<Rightarrow> distinct (map fst ps) \<and> list_all (is_habit_json \<circ> snd) ps
   | _ \<Rightarrow> False)"

section \<open>Lemmas\<close>

named_theorems tracker_defs "unfolding of the HabitTracker methods"

declare tracker_add_habit_def [tracker_defs] tracker_mark_completed_def [tracker_defs]
  tracker_view_progress_def [tracker_defs] tracker_remove_habit_def [tracker_defs]
  tracker_reset_progress_def [tracker_defs]

subsection \<open>Python operations on a well-formed store\<close>

lemma map_of_store_json:
  "map_of (map (\<lambda>(k, h). (k, habit_json h)) hs) = map_option habit_json \<circ> map_of hs"
  by (rule map_of_map)

lemma dict_set_map_json:
  "dict_set k (habit_json h) (map (\<lambda>(k, h). (k, habit_json h)) hs) =
   map (\<lambda>(k, h). (k, habit_json h)) (dict_set k h hs)"
proof (induction hs)
  case Nil
  then show ?case by simp
next
  case (Cons p hs)
  then show ?case by (cases p) auto
qed

lemma dict_del_map_json:
  "dict_del k (map (\<lambda>(k, h). (k, habit_json h)) hs) = map (\<lambda>(k, h). (k, habit_json h)) (dict_del k hs)"
proof (induction hs)
  case Nil
  then show ?case by simp
next
  case (Cons p hs)
  then show ?case by (cases p) auto
qed

lemma py_contains_store [simp]: "py_contains n (store_json hs) = Inr (map_of hs n \<noteq> None)"
  by (simp add: py_contains_def store_json_def map_of_store_json)

lemma py_getitem_store [simp]:
  "py_getitem (store_json hs) (JStr n) =
   (case map_of hs n of None \<Rightarrow> Inl (KeyError (JStr n)) | Some h \<Rightarrow> Inr (habit_json h))"
  by (simp add: py_getitem_def store_json_def map_of_store_json split: option.splits)

lemma py_setitem_store [simp]:
  "py_setitem (store_json hs) n (habit_json h) = Inr (store_json (dict_set n h hs))"
  by (simp add: py_setitem_def store_json_def dict_set_map_json)

lemma py_delitem_store [simp]:
  "map_of hs n \<noteq> None \<Longrightarrow> py_delitem (store_json hs) n = Inr (store_json (dict_del n hs))"
  by (simp add: py_delitem_def store_json_def map_of_store_json dict_del_map_json)

lemma keys_distinct [simp]:
  "key_count \<noteq> key_description" "key_count \<noteq> key_frequency" "key_description \<noteq> key_frequency"
  "key_description \<noteq> key_count" "key_frequency \<noteq> key_count" "key_frequency \<noteq> key_description"
  by (simp_all add: key_count_def key_description_def key_frequency_def)

lemma py_getitem_count [simp]:
  "py_getitem (habit_json h) (JStr key_count) = Inr (JInt (completion_count h))"
  by (simp add: py_getitem_def habit_json_def)

lemma py_setitem_count [simp]:
  "py_setitem (habit_json h) key_count (JInt c) =
   Inr (habit_json (h\<lparr>completion_count := c\<rparr>))"
  by (simp add: py_setitem_def habit_json_def)

lemma new_record_json: "new_record d f = habit_json (new_habit d f)"
  by (simp add: new_record_def habit_json_def new_habit_def)

lemma save_data_writable [simp]:
  "writable s \<Longrightarrow> save_data s = (Inr (), s\<lparr>disk := (disk s)(filename s \<mapsto> Text (json_dumps (habits s)))\<rparr>)"
  by (auto simp: save_data_def writable_def split: option.splits fentry.splits)

lemma save_data_NoAccess [simp]:
  "disk s (filename s) = Some NoAccess \<Longrightarrow> save_data s = (Inl PermissionError, s)"
  by (simp add: save_data_def)

lemma writable_habits [simp]: "writable (s\<lparr>habits := h\<rparr>) = writable s"
  by (simp add: writable_def)

lemma persist_eq: "persist hs s = (s\<lparr>habits := store_json hs\<rparr>)\<lparr>disk := (disk s)(filename s \<mapsto> Text (json_dumps (store_json hs)))\<rparr>"
  by (simp add: persist_def)

subsection \<open>The reset loop on a well-formed store\<close>

lemma fst_comp_json [simp]: "fst \<circ> (\<lambda>(k, h). (k, habit_json h)) = fst"
  by (auto simp: fun_eq_iff)

lemma reset_dict_store:
  "set ks \<subseteq> fst ` set hs \<Longrightarrow>
   reset_dict ks (map (\<lambda>(k, h). (k, habit_json h)) hs) = (None, map (\<lambda>(k, h). (k, habit_json h)) (reset_loop ks hs))"
proof (induction ks arbitrary: hs)
  case Nil
  then show ?case by simp
next
  case (Cons k ks)
  from Cons.prems obtain h where h: "map_of hs k = Some h"
    by (auto dest: weak_map_of_SomeI)
  let ?h' = "h\<lparr>completion_count := 0\<rparr>"
  have "set ks \<subseteq> fst ` set (dict_set k ?h' hs)" using Cons.prems by auto
  then have "reset_dict ks (map (\<lambda>(k, h). (k, habit_json h)) (dict_set k ?h' hs)) =
      (None, map (\<lambda>(k, h). (k, habit_json h)) (reset_loop ks (dict_set k ?h' hs)))"
    by (rule Cons.IH)
  with h show ?case
    by (simp add: map_of_store_json dict_set_map_json)
qed

lemma reset_value_store: "reset_value (store_json hs) = (None, store_json (reset_progress hs))"
  by (simp add: reset_value_def store_json_def reset_progress_def reset_dict_store)

lemma save_data_synced: "save_data s = (Inr u, s') \<Longrightarrow> synced s'"
  by (auto simp: save_data_def synced_def split: option.splits fentry.splits)

lemma save_data_Inl: "save_data s = (Inl e, s') \<Longrightarrow> s' = s \<and> e = PermissionError"
  by (auto simp: save_data_def split: option.splits fentry.splits)

lemma save_data_frame: "save_data s = (r, s') \<Longrightarrow> filename s' = filename s \<and> habits s' = habits s"
  by (auto simp: save_data_def split: option.splits fentry.splits)

lemma save_then_Inr: "save_data s0 = (x, s') \<Longrightarrow> map_sum id g x = Inr r \<Longrightarrow> synced s'"
  by (cases x) (auto intro: save_data_synced)

lemma save_then_Inl: "save_data s0 = (x, s') \<Longrightarrow> map_sum id g x = Inl e \<Longrightarrow> s' = s0"
  by (cases x) (auto dest: save_data_Inl)

subsection \<open>The methods on a well-formed store\<close>

lemma tracker_call_store:
  "wf_store hs \<Longrightarrow> habits s = store_json hs \<Longrightarrow> writable s \<Longrightarrow>
   tracker_call op s = tracker_spec op hs s"
  by (cases op)
    (auto simp: tracker_defs habit_ops herr_msg_def persist_def py_add_one_def new_record_json
       reset_value_store split: option.splits)

lemma writable_persist [simp]: "writable (persist hs s)"
  by (simp add: writable_def persist_def)

lemma habits_persist [simp]: "habits (persist hs s) = store_json hs"
  by (simp add: persist_def)

lemma tracker_run_store:
  "wf_store hs \<Longrightarrow> habits s = store_json hs \<Longrightarrow> writable s \<Longrightarrow>
   writable (snd (tracker_run ops s)) \<and>
   (case hrun ops hs of
      Inr hs' \<Rightarrow> fst (tracker_run ops s) = None \<and> habits (snd (tracker_run ops s)) = store_json hs'
    | Inl e \<Rightarrow> fst (tracker_run ops s) = Some (ValueError (herr_msg e)))"
proof (induction ops arbitrary: hs s)
  case Nil
  then show ?case by simp
next
  case (Cons op ops)
  have call: "tracker_call op s = tracker_spec op hs s" using Cons.prems by (rule tracker_call_store)
  show ?case
  proof (cases "hstep op hs")
    case (Inl e)
    then show ?thesis using call Cons.prems(3)
      by (cases op) (auto simp: map_sum_def split: sum.splits)
  next
    case (Inr hs1)
    show ?thesis
    proof (cases "\<exists>n. op = View n")
      case True
      then obtain n where v: "op = View n" by blast
      with Inr obtain c where "hs1 = hs" "view_progress n hs = Inr c"
        by (auto simp: map_sum_def split: sum.splits)
      with v call have e: "tracker_run (op # ops) s = tracker_run ops s" "hrun (op # ops) hs = hrun ops hs"
        by simp_all
      show ?thesis unfolding e using Cons.IH [OF Cons.prems] .
    next
      case False
      have wf1: "wf_store hs1" using Cons.prems(1) Inr by (rule hstep_wf)
      from call Inr False have "tracker_call op s = (Inr JNull, persist hs1 s)"
        by (cases op) auto
      then have e1: "tracker_run (op # ops) s = tracker_run ops (persist hs1 s)" by simp
      have e2: "hrun (op # ops) hs = hrun ops hs1" using Inr by simp
      show ?thesis unfolding e1 e2 using Cons.IH [OF wf1 habits_persist writable_persist] .
    qed
  qed
qed

subsection \<open>The shape of the store\<close>

lemma is_habit_json_iff: "is_habit_json v \<longleftrightarrow> (\<exists>h. 0 \<le> completion_count h \<and> v = habit_json h)"
proof
  assume "is_habit_json v"
  then show "\<exists>h. 0 \<le> completion_count h \<and> v = habit_json h"
  proof (induction v rule: is_habit_json.induct)
    case (1 k1 d k2 f k3 c)
    then show ?case by (intro exI [of _ "\<lparr>description = d, frequency = f, completion_count = c\<rparr>"])
      (simp add: habit_json_def)
  qed simp_all
qed (auto simp: habit_json_def)

lemma is_store_iff: "is_store v \<longleftrightarrow> (\<exists>hs. wf_store hs \<and> v = store_json hs)"
proof
  assume "is_store v"
  then obtain ps where v: "v = JObj ps" and d: "distinct (map fst ps)" and a: "list_all (is_habit_json \<circ> snd) ps"
    by (auto simp: is_store_def split: jval.splits)
  from a d have "\<exists>hs. wf_store hs \<and> JObj ps = store_json hs"
  proof (induction ps)
    case Nil
    show ?case by (auto simp: store_json_def)
  next
    case (Cons p ps)
    then obtain hs where "wf_store hs" "JObj ps = store_json hs" by auto
    moreover obtain h where "0 \<le> completion_count h" "snd p = habit_json h"
      using Cons.prems(1) by (auto simp: is_habit_json_iff)
    ultimately have "wf_store ((fst p, h) # hs) \<and> JObj (p # ps) = store_json ((fst p, h) # hs)"
      using Cons.prems(2) by (cases p) (auto simp: wf_store_def store_json_def)
    then show ?case ..
  qed
  with v show "\<exists>hs. wf_store hs \<and> v = store_json hs" by simp
next
  assume "\<exists>hs. wf_store hs \<and> v = store_json hs"
  then obtain hs where "distinct (map fst hs)" "\<forall>p \<in> set hs. 0 \<le> completion_count (snd p)"
    "v = store_json hs" by (auto simp: wf_store_def)
  then show "is_store v"
    by (auto simp: is_store_def store_json_def list_all_iff is_habit_json_iff split_def comp_def)
qed

lemma tracker_call_noaccess:
  "wf_store hs \<Longrightarrow> habits s = store_json hs \<Longrightarrow> \<not> writable s \<Longrightarrow>
   tracker_call op s = (case tracker_spec op hs s of
      (Inr JNull, s') \<Rightarrow> (Inl PermissionError, s\<lparr>habits := habits s'\<rparr>)
    | r \<Rightarrow> r)"
  by (cases op)
    (auto simp: tracker_defs habit_ops herr_msg_def persist_def py_add_one_def new_record_json
       reset_value_store save_data_def writable_def split: option.splits)

lemma tracker_spec_typed:
  "wf_store hs \<Longrightarrow> habits s = store_json hs \<Longrightarrow> tracker_spec op hs s = (r, s') \<Longrightarrow>
   is_store (habits s') \<and> filename s' = filename s \<and>
   (case r of Inr v \<Rightarrow> v = JNull \<or> (\<exists>c. 0 \<le> c \<and> v = JInt c) | Inl e \<Rightarrow> \<exists>m. e = ValueError m)"
proof -
  assume wf: "wf_store hs" and "habits s = store_json hs" "tracker_spec op hs s = (r, s')"
  moreover have "hstep op hs = Inr hs' \<Longrightarrow> wf_store hs'" for hs' using wf by (rule hstep_wf)
  ultimately show ?thesis
    by (cases op) (auto simp: is_store_iff persist_def view_progress_Inr wf_store_counts split: sum.splits)
qed

section \<open>Properties of the HabitTracker methods\<close>

text \<open>(C1) Refinement: on a well-formed store in memory and a writable file, every method
  is the typed operation of \<open>Habits\<close>: on success a mutator stores the new records and
  rewrites the whole file with their serialisation, \<^verbatim>\<open>view_progress\<close> returns the count,
  and a ValueError leaves memory and file as they were.\<close>

theorem tracker_refines:
  "wf_store hs \<Longrightarrow> habits s = store_json hs \<Longrightarrow> writable s \<Longrightarrow>
   tracker_call op s = tracker_spec op hs s"
  by (rule tracker_call_store)

theorem tracker_refines_witness:
  "wf_store [(ustr ''Exercise'', new_habit [] (ustr ''daily''))] \<and>
   habits \<lparr>filename = ustr ''habits.json'', habits = store_json [(ustr ''Exercise'', new_habit [] (ustr ''daily''))],
           disk = Map.empty\<rparr> = store_json [(ustr ''Exercise'', new_habit [] (ustr ''daily''))] \<and>
   writable \<lparr>filename = ustr ''habits.json'', habits = store_json [(ustr ''Exercise'', new_habit [] (ustr ''daily''))],
             disk = Map.empty\<rparr> \<and>
   tracker_call (Complete (ustr ''Exercise''))
     \<lparr>filename = ustr ''habits.json'', habits = store_json [(ustr ''Exercise'', new_habit [] (ustr ''daily''))],
      disk = Map.empty\<rparr> =
   tracker_spec (Complete (ustr ''Exercise'')) [(ustr ''Exercise'', new_habit [] (ustr ''daily''))]
     \<lparr>filename = ustr ''habits.json'', habits = store_json [(ustr ''Exercise'', new_habit [] (ustr ''daily''))],
      disk = Map.empty\<rparr>"
proof -
  have h1: "wf_store [(ustr ''Exercise'', new_habit [] (ustr ''daily''))]"
    by (simp add: wf_store_def new_habit_def)
  have h2: "habits \<lparr>filename = ustr ''habits.json'', habits = store_json [(ustr ''Exercise'', new_habit [] (ustr ''daily''))],
           disk = Map.empty\<rparr> = store_json [(ustr ''Exercise'', new_habit [] (ustr ''daily''))]"
    by simp
  have h3: "writable \<lparr>filename = ustr ''habits.json'', habits = store_json [(ustr ''Exercise'', new_habit [] (ustr ''daily''))],
             disk = Map.empty\<rparr>"
    by (simp add: writable_def)
  from tracker_refines [OF h1 h2 h3, of "Complete (ustr ''Exercise'')"] h1 h2 h3 show ?thesis by blast
qed

text \<open>(C3) Persistence: whatever \<^verbatim>\<open>self.habits\<close> holds, a mutator that returns has
  just written the file, which then holds exactly the serialisation of the data in
  memory; \<^verbatim>\<open>view_progress\<close> changes nothing.\<close>

theorem tracker_success_synced:
  "tracker_call op s = (Inr r, s') \<Longrightarrow> (case op of View n \<Rightarrow> s' = s | _ \<Rightarrow> synced s')"
  by (cases op)
    (auto simp: tracker_defs intro: save_then_Inr
       split: sum.splits bool.splits option.splits prod.splits)

theorem tracker_success_synced_witness:
  "tracker_call (Add (ustr ''Exercise'') [] (ustr ''daily''))
     \<lparr>filename = ustr ''habits.json'', habits = JObj [], disk = Map.empty\<rparr> =
   (Inr JNull, \<lparr>filename = ustr ''habits.json'', habits = JObj [(ustr ''Exercise'', new_record [] (ustr ''daily''))],
               disk = [ustr ''habits.json'' \<mapsto> Text (json_dumps (JObj [(ustr ''Exercise'', new_record [] (ustr ''daily''))]))]\<rparr>) \<and>
   synced \<lparr>filename = ustr ''habits.json'', habits = JObj [(ustr ''Exercise'', new_record [] (ustr ''daily''))],
           disk = [ustr ''habits.json'' \<mapsto> Text (json_dumps (JObj [(ustr ''Exercise'', new_record [] (ustr ''daily''))]))]\<rparr>"
proof -
  have call: "tracker_call (Add (ustr ''Exercise'') [] (ustr ''daily''))
     \<lparr>filename = ustr ''habits.json'', habits = JObj [], disk = Map.empty\<rparr> =
   (Inr JNull, \<lparr>filename = ustr ''habits.json'', habits = JObj [(ustr ''Exercise'', new_record [] (ustr ''daily''))],
               disk = [ustr ''habits.json'' \<mapsto> Text (json_dumps (JObj [(ustr ''Exercise'', new_record [] (ustr ''daily''))]))]\<rparr>)"
    by (simp add: tracker_add_habit_def py_contains_def py_setitem_def save_data_def)
  from tracker_success_synced [OF call] call show ?thesis by simp
qed

text \<open>(C5) A method that raises never writes the file: the file system and the file name
  after the exception are those before the call.\<close>

theorem tracker_error_disk:
  "tracker_call op s = (Inl e, s') \<Longrightarrow> disk s' = disk s \<and> filename s' = filename s"
  by (cases op)
    (auto simp: tracker_defs dest!: save_then_Inl
       split: sum.splits bool.splits option.splits prod.splits)

theorem tracker_error_disk_witness:
  "tracker_call (Complete (ustr ''Nonexistent''))
     \<lparr>filename = ustr ''habits.json'', habits = JObj [], disk = Map.empty\<rparr> =
   (Inl (ValueError (ustr ''Habit not found'')),
    \<lparr>filename = ustr ''habits.json'', habits = JObj [], disk = Map.empty\<rparr>) \<and>
   disk \<lparr>filename = ustr ''habits.json'', habits = JObj [], disk = Map.empty\<rparr> = Map.empty"
proof -
  have call: "tracker_call (Complete (ustr ''Nonexistent''))
     \<lparr>filename = ustr ''habits.json'', habits = JObj [], disk = Map.empty\<rparr> =
   (Inl (ValueError (ustr ''Habit not found'')),
    \<lparr>filename = ustr ''habits.json'', habits = JObj [], disk = Map.empty\<rparr>)"
    by (simp add: tracker_mark_completed_def py_contains_def)
  from tracker_error_disk [OF call] call show ?thesis by simp
qed

text \<open>(C27) Divergence from the spec's "no partial mutation": when the file cannot be
  opened for writing, \<^verbatim>\<open>mark_completed\<close> raises PermissionError from \<^verbatim>\<open>save_data\<close>
  after it has already incremented the count in memory, so memory and file disagree.\<close>

theorem mark_completed_save_fails:
  "disk s (filename s) = Some NoAccess \<Longrightarrow> habits s = store_json hs \<Longrightarrow> map_of hs n = Some h \<Longrightarrow>
   tracker_mark_completed n s =
     (Inl PermissionError,
      s\<lparr>habits := store_json (dict_set n (h\<lparr>completion_count := completion_count h + 1\<rparr>) hs)\<rparr>)"
  by (simp add: tracker_defs py_add_one_def)

theorem mark_completed_save_fails_witness:
  "[ustr ''habits.json'' \<mapsto> NoAccess] (ustr ''habits.json'') = Some NoAccess \<and>
   store_json [(ustr ''Exercise'', new_habit [] (ustr ''daily''))] = store_json [(ustr ''Exercise'', new_habit [] (ustr ''daily''))] \<and>
   map_of [(ustr ''Exercise'', new_habit [] (ustr ''daily''))] (ustr ''Exercise'') = Some (new_habit [] (ustr ''daily'')) \<and>
   tracker_mark_completed (ustr ''Exercise'')
     \<lparr>filename = ustr ''habits.json'', habits = store_json [(ustr ''Exercise'', new_habit [] (ustr ''daily''))],
      disk = [ustr ''habits.json'' \<mapsto> NoAccess]\<rparr> =
   (Inl PermissionError,
    \<lparr>filename = ustr ''habits.json'',
     habits = store_json [(ustr ''Exercise'', (new_habit [] (ustr ''daily''))\<lparr>completion_count := 1\<rparr>)],
     disk = [ustr ''habits.json'' \<mapsto> NoAccess]\<rparr>)"
  using mark_completed_save_fails
    [of "\<lparr>filename = ustr ''habits.json'', habits = store_json [(ustr ''Exercise'', new_habit [] (ustr ''daily''))],
         disk = [ustr ''habits.json'' \<mapsto> NoAccess]\<rparr>"
        "[(ustr ''Exercise'', new_habit [] (ustr ''daily''))]" "ustr ''Exercise''" "new_habit [] (ustr ''daily'')"]
  by (simp add: new_habit_def)

text \<open>(C26) Loading from a path with no file, or from a file that is not valid JSON,
  yields an empty store and raises nothing.\<close>

theorem tracker_init_empty:
  "d fn = None \<or> (\<exists>t. d fn = Some (Text t) \<and> json_loads t = None) \<Longrightarrow>
   tracker_init fn d = Inr \<lparr>filename = fn, habits = store_json [], disk = d\<rparr>"
  by (auto simp: tracker_init_def load_data_def store_json_def)

theorem tracker_init_empty_witness:
  "(Map.empty (ustr ''habits.json'') = (None :: fentry option) \<or>
    (\<exists>t. Map.empty (ustr ''habits.json'') = Some (Text t) \<and> json_loads t = None)) \<and>
   tracker_init (ustr ''habits.json'') Map.empty =
     Inr \<lparr>filename = ustr ''habits.json'', habits = store_json [], disk = Map.empty\<rparr>"
  using tracker_init_empty [of Map.empty "ustr ''habits.json''"] by simp

text \<open>(C6) Type safety: when \<^verbatim>\<open>self.habits\<close> has the shape of a stored tracker, every
  method leaves it of that shape and keeps the file name, whether or not the file can be
  written; it returns None or a count \<open>\<ge> 0\<close>, and raises only ValueError or, from
  \<^verbatim>\<open>save_data\<close>, PermissionError: never TypeError or KeyError.\<close>

theorem tracker_call_typed:
  "is_store (habits s) \<Longrightarrow> tracker_call op s = (r, s') \<Longrightarrow>
   is_store (habits s') \<and> filename s' = filename s \<and>
   (case r of Inr v \<Rightarrow> v = JNull \<or> (\<exists>c. 0 \<le> c \<and> v = JInt c)
    | Inl e \<Rightarrow> e = PermissionError \<or> (\<exists>m. e = ValueError m))"
proof -
  assume "is_store (habits s)" and call: "tracker_call op s = (r, s')"
  then obtain hs where wf: "wf_store hs" and h: "habits s = store_json hs" by (auto simp: is_store_iff)
  obtain r0 s0 where spec: "tracker_spec op hs s = (r0, s0)" by fastforce
  note typed = tracker_spec_typed [OF wf h spec]
  show ?thesis
  proof (cases "writable s")
    case True
    with call spec tracker_call_store [OF wf h True] typed show ?thesis by (auto split: sum.splits)
  next
    case False
    with call spec tracker_call_noaccess [OF wf h False, of op] typed show ?thesis
      by (auto split: sum.splits jval.splits)
  qed
qed

theorem tracker_call_typed_witness:
  "is_store (habits \<lparr>filename = ustr ''habits.json'', habits = JObj [], disk = [ustr ''habits.json'' \<mapsto> NoAccess]\<rparr>) \<and>
   tracker_call (Add (ustr ''Gym'') [] (ustr ''daily''))
     \<lparr>filename = ustr ''habits.json'', habits = JObj [], disk = [ustr ''habits.json'' \<mapsto> NoAccess]\<rparr> =
   (Inl PermissionError, \<lparr>filename = ustr ''habits.json'', habits = JObj [(ustr ''Gym'', new_record [] (ustr ''daily''))],
                          disk = [ustr ''habits.json'' \<mapsto> NoAccess]\<rparr>) \<and>
   is_store (JObj [(ustr ''Gym'', new_record [] (ustr ''daily''))])"
proof -
  have h1: "is_store (habits \<lparr>filename = ustr ''habits.json'', habits = JObj [], disk = [ustr ''habits.json'' \<mapsto> NoAccess]\<rparr>)"
    by (simp add: is_store_def)
  have h2: "tracker_call (Add (ustr ''Gym'') [] (ustr ''daily''))
     \<lparr>filename = ustr ''habits.json'', habits = JObj [], disk = [ustr ''habits.json'' \<mapsto> NoAccess]\<rparr> =
   (Inl PermissionError, \<lparr>filename = ustr ''habits.json'', habits = JObj [(ustr ''Gym'', new_record [] (ustr ''daily''))],
                          disk = [ustr ''habits.json'' \<mapsto> NoAccess]\<rparr>)"
    by (simp add: tracker_add_habit_def py_contains_def py_setitem_def save_data_def)
  from tracker_call_typed [OF h1 h2] h1 h2 show ?thesis by simp
qed

end
