(* ===== verification/Effects.thy ===== *)
theory Effects
  imports Tracker
begin

text \<open>
  What the methods of \<^verbatim>\<open>HabitTracker\<close> (\<^verbatim>\<open>src/habit_tracker.py\<close>) do whatever
  \<^verbatim>\<open>json.load\<close> returned: the only file any method writes is \<^verbatim>\<open>self.filename\<close>, and
  what it writes is the serialisation of the data in memory after the call. When the data
  is not a dict, every method but \<^verbatim>\<open>reset_progress\<close> raises and changes nothing, and
  \<^verbatim>\<open>reset_progress\<close> completes only on an empty list or an empty string, which it then
  saves: the loop \<^verbatim>\<open>for habit in self.habits\<close> over a non-empty list always reaches an
  element that is no index (\<open>reset_list_no_dict\<close>). A dict whose records
  are followed by an entry that is no record is reset up to that entry, and the
  exception leaves the earlier records reset (\<open>reset_progress_partial\<close>); a file of
  valid JSON that is no dict is loaded as it is, not as an empty store
  (\<open>tracker_init_wrong_shape\<close>).
\<close>

section \<open>Definitions\<close>

definition is_dict :: "jval \<Rightarrow> bool" where
  "is_dict v = (case v of JObj _ \<Rightarrow> True | _ \<Rightarrow> False)"

section \<open>Lemmas\<close>

lemma tracker_call_disk:
  "tracker_call op s = (r, s') \<Longrightarrow>
   filename s' = filename s \<and>
   (disk s' = disk s \<or> disk s' = (disk s)(filename s \<mapsto> Text (json_dumps (habits s'))))"
  by (cases op)
    (auto simp: tracker_defs save_data_def split: sum.splits bool.splits option.splits fentry.splits prod.splits)

lemma py_setitem_dict: "py_setitem v k x = Inr t \<Longrightarrow> is_dict v \<and> is_dict t"
  by (auto simp: py_setitem_def is_dict_def split: jval.splits)

lemma py_index_not_dict: "py_index v = Some j \<Longrightarrow> \<not> is_dict v"
  by (auto simp: py_index_def is_dict_def split: jval.splits)

lemma list_pos_lt: "list_pos n j = Some p \<Longrightarrow> p < n"
  by (auto simp: list_pos_def Let_def split: if_splits)

declare reset_list.simps [simp del]

lemma reset_list_done: "length xs \<le> i \<Longrightarrow> reset_list i xs = (None, xs)"
  by (simp add: reset_list.simps)

lemma reset_list_step:
  "reset_list i xs = (None, ys) \<Longrightarrow> \<not> length xs \<le> i \<Longrightarrow>
   \<exists>j p t'. py_index (xs ! i) = Some j \<and> list_pos (length xs) j = Some p \<and>
      py_setitem (xs ! p) key_count (JInt 0) = Inr t' \<and> reset_list (Suc i) (xs[p := t']) = (None, ys)"
  by (subst (asm) reset_list.simps) (auto split: option.splits sum.splits)

text \<open>A loop over a list that completes leaves no dict at a position it has still to visit.\<close>

lemma reset_list_no_dict:
  "reset_list i xs = (None, ys) \<Longrightarrow> i \<le> k \<Longrightarrow> k < length xs \<Longrightarrow> \<not> is_dict (xs ! k)"
proof (induction i xs arbitrary: k rule: reset_list.induct)
  case (1 i xs)
  show ?case
  proof (cases "length xs \<le> i")
    case True
    with "1.prems" show ?thesis by simp
  next
    case False
    with "1.prems"(1) obtain j p t' where ix: "py_index (xs ! i) = Some j" and pos: "list_pos (length xs) j = Some p"
      and set: "py_setitem (xs ! p) key_count (JInt 0) = Inr t'" and rest: "reset_list (Suc i) (xs[p := t']) = (None, ys)"
      by (blast dest: reset_list_step)
    have p: "p < length xs" using pos by (rule list_pos_lt)
    have IH: "\<And>k. Suc i \<le> k \<Longrightarrow> k < length xs \<Longrightarrow> \<not> is_dict (xs[p := t'] ! k)"
      using "1.IH" [OF _ ix pos set] False rest by auto
    from IH [of p] p set have "p < Suc i" by (cases "Suc i \<le> p") (auto dest: py_setitem_dict)
    moreover from ix set have "p \<noteq> i" by (auto dest: py_index_not_dict py_setitem_dict)
    ultimately have "p < i" by simp
    show ?thesis
    proof (cases "k = i")
      case True
      with ix show ?thesis by (simp add: py_index_not_dict)
    next
      case False
      with "1.prems"(2,3) IH [of k] \<open>p < i\<close> show ?thesis by simp
    qed
  qed
qed

lemma reset_list_Nil: "reset_list 0 xs = (None, ys) \<Longrightarrow> xs = []"
proof (rule ccontr)
  assume ok: "reset_list 0 xs = (None, ys)" and ne: "xs \<noteq> []"
  then obtain j p t' where ix: "py_index (xs ! 0) = Some j" and pos: "list_pos (length xs) j = Some p"
    and set: "py_setitem (xs ! p) key_count (JInt 0) = Inr t'" and rest: "reset_list 1 (xs[p := t']) = (None, ys)"
    using reset_list_step [of 0 xs ys] by auto
  have p: "p < length xs" using pos by (rule list_pos_lt)
  from set have "is_dict (xs ! p)" "is_dict t'" by (auto dest: py_setitem_dict)
  with ix have "p \<noteq> 0" by (metis py_index_not_dict)
  with reset_list_no_dict [OF rest, of p] p \<open>is_dict t'\<close> show False by simp
qed

lemma reset_value_non_dict:
  "\<not> is_dict v \<Longrightarrow> fst (reset_value v) = None \<longleftrightarrow> v = JArr [] \<or> v = JStr []"
proof (cases v)
  case (JArr xs)
  then show ?thesis
    using reset_list_Nil [of xs] reset_list_done [of "[]" 0]
    by (cases "reset_list 0 xs") (auto simp: reset_value_def)
qed (auto simp: reset_value_def is_dict_def)

lemma reset_value_empty: "v = JArr [] \<or> v = JStr [] \<Longrightarrow> reset_value v = (None, v)"
  by (auto simp: reset_value_def reset_list_done)

lemma non_dict_call_raises:
  "\<not> is_dict (habits s) \<Longrightarrow> op \<noteq> Reset \<Longrightarrow> \<exists>e. tracker_call op s = (Inl e, s)"
  by (cases op)
    (auto simp: tracker_defs py_contains_def py_getitem_def py_setitem_def py_delitem_def py_index_def is_dict_def
      split: jval.splits bool.splits)

lemma reset_dict_prefix:
  "set ks \<subseteq> fst ` set hs \<Longrightarrow>
   reset_dict (ks @ ks') (map (\<lambda>(k, h). (k, habit_json h)) hs @ rest) =
   reset_dict ks' (map (\<lambda>(k, h). (k, habit_json h)) (reset_loop ks hs) @ rest)"
proof (induction ks arbitrary: hs)
  case Nil
  then show ?case by simp
next
  case (Cons k ks)
  from Cons.prems obtain h where h: "map_of hs k = Some h"
    by (auto dest: weak_map_of_SomeI)
  let ?h' = "h\<lparr>completion_count := 0\<rparr>"
  have k: "k \<in> fst ` set (map (\<lambda>(k, h). (k, habit_json h)) hs)" using Cons.prems by force
  have "set ks \<subseteq> fst ` set (dict_set k ?h' hs)" using Cons.prems by auto
  then have IH: "reset_dict (ks @ ks') (map (\<lambda>(k, h). (k, habit_json h)) (dict_set k ?h' hs) @ rest) =
      reset_dict ks' (map (\<lambda>(k, h). (k, habit_json h)) (reset_loop ks (dict_set k ?h' hs)) @ rest)"
    by (rule Cons.IH)
  have "map_of (map (\<lambda>(k, h). (k, habit_json h)) hs @ rest) k = Some (habit_json h)"
    using h by (simp add: map_of_store_json map_add_def)
  with h k IH show ?case
    by (simp add: dict_set_append dict_set_map_json)
qed

lemma reset_all_loop: "distinct (map fst hs) \<Longrightarrow> reset_loop (map fst hs) hs = reset_all hs"
  by (simp add: reset_loop_map reset_all_def case_prod_beta')

lemma non_dict_setitem: "\<not> is_dict v \<Longrightarrow> py_setitem v k x = Inl TypeError"
  by (auto simp: py_setitem_def is_dict_def split: jval.splits)

section \<open>Properties\<close>

text \<open>(C10) Frame: a method call, whatever it returns or raises and whatever data it runs
  on, keeps the file name, leaves every other path of the file system as it was, and
  either leaves \<^verbatim>\<open>self.filename\<close> as it was or writes there the JSON serialisation of
  the data in memory after the call.\<close>

theorem tracker_call_frame:
  "tracker_call op s = (r, s') \<Longrightarrow>
   filename s' = filename s \<and> (disk s')(filename s := None) = (disk s)(filename s := None) \<and>
   (disk s' (filename s) = disk s (filename s) \<or>
    disk s' (filename s) = Some (Text (json_dumps (habits s'))))"
  by (drule tracker_call_disk) auto

theorem tracker_call_frame_witness:
  "tracker_call Reset \<lparr>filename = ustr ''habits.json'', habits = JObj [], disk = Map.empty\<rparr> =
     (Inr JNull, \<lparr>filename = ustr ''habits.json'', habits = JObj [],
                  disk = [ustr ''habits.json'' \<mapsto> Text (json_dumps (JObj []))]\<rparr>) \<and>
   filename \<lparr>filename = ustr ''habits.json'', habits = JObj [],
                  disk = [ustr ''habits.json'' \<mapsto> Text (json_dumps (JObj []))]\<rparr> = ustr ''habits.json''"
proof -
  have h: "tracker_call Reset \<lparr>filename = ustr ''habits.json'', habits = JObj [], disk = Map.empty\<rparr> =
     (Inr JNull, \<lparr>filename = ustr ''habits.json'', habits = JObj [],
                  disk = [ustr ''habits.json'' \<mapsto> Text (json_dumps (JObj []))]\<rparr>)"
    by (simp add: tracker_reset_progress_def reset_value_def save_data_def)
  from tracker_call_frame [OF h] h show ?thesis by simp
qed

text \<open>(C35) On data that is not a dict (a file holding a JSON list, string, number, bool or
  null), \<^verbatim>\<open>add_habit\<close>, \<^verbatim>\<open>mark_completed\<close>, \<^verbatim>\<open>view_progress\<close> and
  \<^verbatim>\<open>remove_habit\<close> always raise (ValueError or TypeError) and change neither the
  data nor the file.\<close>

theorem non_dict_methods_raise:
  "\<not> is_dict (habits s) \<Longrightarrow> op \<noteq> Reset \<Longrightarrow> \<exists>e. tracker_call op s = (Inl e, s)"
  by (rule non_dict_call_raises)

text \<open>(C36) On data that is not a dict, \<^verbatim>\<open>reset_progress\<close> completes exactly when the
  data is an empty list or an empty string, and then saves it unchanged; on any other
  such value it raises before saving, possibly after resetting records inside a list.\<close>

theorem reset_progress_non_dict:
  "\<not> is_dict (habits s) \<Longrightarrow>
   (habits s = JArr [] \<or> habits s = JStr [] \<longrightarrow>
      tracker_reset_progress s = (case save_data s of (r, s') \<Rightarrow> (map_sum id (\<lambda>_. JNull) r, s'))) \<and>
   (habits s \<noteq> JArr [] \<and> habits s \<noteq> JStr [] \<longrightarrow>
      (\<exists>e h. tracker_reset_progress s = (Inl e, s\<lparr>habits := h\<rparr>)))"
proof (intro conjI impI)
  assume "habits s = JArr [] \<or> habits s = JStr []"
  then show "tracker_reset_progress s = (case save_data s of (r, s') \<Rightarrow> (map_sum id (\<lambda>_. JNull) r, s'))"
    by (simp add: tracker_reset_progress_def reset_value_empty)
next
  assume "\<not> is_dict (habits s)" "habits s \<noteq> JArr [] \<and> habits s \<noteq> JStr []"
  with reset_value_non_dict [of "habits s"] obtain e h where "reset_value (habits s) = (Some e, h)"
    by (cases "reset_value (habits s)") auto
  then show "\<exists>e h. tracker_reset_progress s = (Inl e, s\<lparr>habits := h\<rparr>)"
    by (auto simp: tracker_reset_progress_def)
qed

theorem non_dict_methods_raise_witness:
  "\<not> is_dict (habits \<lparr>filename = ustr ''habits.json'', habits = JArr [JStr (ustr ''Gym'')], disk = Map.empty\<rparr>) \<and>
   Complete (ustr ''Gym'') \<noteq> Reset \<and>
   (\<exists>e. tracker_call (Complete (ustr ''Gym'')) \<lparr>filename = ustr ''habits.json'', habits = JArr [JStr (ustr ''Gym'')], disk = Map.empty\<rparr> =
         (Inl e, \<lparr>filename = ustr ''habits.json'', habits = JArr [JStr (ustr ''Gym'')], disk = Map.empty\<rparr>))"
proof -
  have h: "\<not> is_dict (habits \<lparr>filename = ustr ''habits.json'', habits = JArr [JStr (ustr ''Gym'')], disk = Map.empty\<rparr>)"
    by (simp add: is_dict_def)
  from non_dict_methods_raise [OF h, of "Complete (ustr ''Gym'')"] h show ?thesis by simp
qed

theorem reset_progress_non_dict_witness:
  "\<not> is_dict (habits \<lparr>filename = ustr ''habits.json'', habits = JArr [], disk = Map.empty\<rparr>) \<and>
   tracker_reset_progress \<lparr>filename = ustr ''habits.json'', habits = JArr [], disk = Map.empty\<rparr> =
     (Inr JNull, \<lparr>filename = ustr ''habits.json'', habits = JArr [],
                  disk = [ustr ''habits.json'' \<mapsto> Text (json_dumps (JArr []))]\<rparr>) \<and>
   \<not> is_dict (habits \<lparr>filename = ustr ''habits.json'', habits = JArr [JInt 0], disk = Map.empty\<rparr>) \<and>
   (\<exists>e h. tracker_reset_progress \<lparr>filename = ustr ''habits.json'', habits = JArr [JInt 0], disk = Map.empty\<rparr> =
      (Inl e, \<lparr>filename = ustr ''habits.json'', habits = h, disk = Map.empty\<rparr>))"
proof -
  have h1: "\<not> is_dict (habits \<lparr>filename = ustr ''habits.json'', habits = JArr [], disk = Map.empty\<rparr>)"
    by (simp add: is_dict_def)
  have h2: "\<not> is_dict (habits \<lparr>filename = ustr ''habits.json'', habits = JArr [JInt 0], disk = Map.empty\<rparr>)"
    by (simp add: is_dict_def)
  from reset_progress_non_dict [OF h1] reset_progress_non_dict [OF h2] h1 h2 show ?thesis
    by (simp add: save_data_def)
qed

text \<open>(C28) Divergence from the spec's "no partial mutation": on a loaded dict whose first
  entries are records and whose next entry is not a dict, \<^verbatim>\<open>reset_progress\<close> resets
  all the records before it in memory, then raises TypeError without saving, leaving
  that entry and the rest as they were.\<close>

theorem reset_progress_partial:
  "distinct (map fst hs @ n # map fst rest) \<Longrightarrow> \<not> is_dict v \<Longrightarrow>
   habits s = JObj (map (\<lambda>(k, h). (k, habit_json h)) hs @ (n, v) # rest) \<Longrightarrow>
   tracker_reset_progress s =
     (Inl TypeError, s\<lparr>habits := JObj (map (\<lambda>(k, h). (k, habit_json h)) (reset_all hs) @ (n, v) # rest)\<rparr>)"
proof -
  assume d: "distinct (map fst hs @ n # map fst rest)" and v: "\<not> is_dict v"
    and h: "habits s = JObj (map (\<lambda>(k, h). (k, habit_json h)) hs @ (n, v) # rest)"
  let ?ps = "map (\<lambda>(k, h). (k, habit_json h)) (reset_all hs) @ (n, v) # rest"
  have keys: "map fst (map (\<lambda>(k, h). (k, habit_json h)) hs @ (n, v) # rest) = map fst hs @ n # map fst rest"
    by (simp add: comp_def case_prod_beta')
  have "n \<notin> fst ` set hs" using d by auto
  then have "map_of (map (\<lambda>(k, h). (k, habit_json h)) (reset_all hs)) n = None"
    by (force simp: map_of_eq_None_iff reset_all_def)
  then have "map_of ?ps n = Some v" by (simp add: map_add_def)
  then have "reset_dict (n # map fst rest) ?ps = (Some TypeError, ?ps)"
    by (simp add: non_dict_setitem [OF v])
  moreover have "reset_dict (map fst hs @ n # map fst rest) (map (\<lambda>(k, h). (k, habit_json h)) hs @ (n, v) # rest) =
      reset_dict (n # map fst rest) ?ps"
  proof -
    have e: "reset_loop (map fst hs) hs = reset_all hs" using d by (simp add: reset_all_loop)
    have "set (map fst hs) \<subseteq> fst ` set hs" by auto
    from reset_dict_prefix [OF this, of "n # map fst rest" "(n, v) # rest"] show ?thesis
      unfolding e .
  qed
  ultimately show ?thesis using h keys by (simp add: tracker_reset_progress_def reset_value_def)
qed

theorem reset_progress_partial_witness:
  "distinct (map fst [(ustr ''Exercise'', new_habit [] (ustr ''daily'')\<lparr>completion_count := 5\<rparr>)] @
             ustr ''Broken'' # map fst ([] :: (pystr \<times> jval) list)) \<and>
   \<not> is_dict (JInt 3) \<and>
   habits \<lparr>filename = ustr ''habits.json'',
           habits = JObj (map (\<lambda>(k, h). (k, habit_json h)) [(ustr ''Exercise'', new_habit [] (ustr ''daily'')\<lparr>completion_count := 5\<rparr>)] @
                          [(ustr ''Broken'', JInt 3)]), disk = Map.empty\<rparr> =
     JObj (map (\<lambda>(k, h). (k, habit_json h)) [(ustr ''Exercise'', new_habit [] (ustr ''daily'')\<lparr>completion_count := 5\<rparr>)] @
           [(ustr ''Broken'', JInt 3)]) \<and>
   tracker_reset_progress \<lparr>filename = ustr ''habits.json'',
       habits = JObj (map (\<lambda>(k, h). (k, habit_json h)) [(ustr ''Exercise'', new_habit [] (ustr ''daily'')\<lparr>completion_count := 5\<rparr>)] @
                      [(ustr ''Broken'', JInt 3)]), disk = Map.empty\<rparr> =
     (Inl TypeError, \<lparr>filename = ustr ''habits.json'',
        habits = JObj (map (\<lambda>(k, h). (k, habit_json h)) (reset_all [(ustr ''Exercise'', new_habit [] (ustr ''daily'')\<lparr>completion_count := 5\<rparr>)]) @
                       [(ustr ''Broken'', JInt 3)]), disk = Map.empty\<rparr>)"
proof -
  have h1: "distinct (map fst [(ustr ''Exercise'', new_habit [] (ustr ''daily'')\<lparr>completion_count := 5\<rparr>)] @
             ustr ''Broken'' # map fst ([] :: (pystr \<times> jval) list))" by simp
  have h2: "\<not> is_dict (JInt 3)" by (simp add: is_dict_def)
  from reset_progress_partial [OF h1 h2, of "\<lparr>filename = ustr ''habits.json'',
       habits = JObj (map (\<lambda>(k, h). (k, habit_json h)) [(ustr ''Exercise'', new_habit [] (ustr ''daily'')\<lparr>completion_count := 5\<rparr>)] @
                      [(ustr ''Broken'', JInt 3)]), disk = Map.empty\<rparr>"] h1 h2
  show ?thesis by simp
qed

text \<open>(C29) Divergence from the spec's "content that fails to parse as this structure is
  treated as an empty store": a file holding any valid JSON value that is not a dict is
  loaded as that value, not as an empty store, and every method but
  \<^verbatim>\<open>reset_progress\<close> then raises on it.\<close>

theorem tracker_init_wrong_shape:
  "d fn = Some (Text t) \<Longrightarrow> json_loads t = Some v \<Longrightarrow> \<not> is_dict v \<Longrightarrow> op \<noteq> Reset \<Longrightarrow>
   tracker_init fn d = Inr \<lparr>filename = fn, habits = v, disk = d\<rparr> \<and> v \<noteq> store_json hs \<and>
   (\<exists>e. tracker_call op \<lparr>filename = fn, habits = v, disk = d\<rparr> = (Inl e, \<lparr>filename = fn, habits = v, disk = d\<rparr>))"
proof -
  assume "d fn = Some (Text t)" "json_loads t = Some v" and v: "\<not> is_dict v" and op: "op \<noteq> Reset"
  then have "tracker_init fn d = Inr \<lparr>filename = fn, habits = v, disk = d\<rparr>"
    by (simp add: tracker_init_def load_data_def)
  moreover have "v \<noteq> store_json hs" using v by (auto simp: store_json_def is_dict_def)
  moreover have "\<exists>e. tracker_call op \<lparr>filename = fn, habits = v, disk = d\<rparr> = (Inl e, \<lparr>filename = fn, habits = v, disk = d\<rparr>)"
    using v op by (intro non_dict_call_raises) simp_all
  ultimately show ?thesis by blast
qed

theorem tracker_init_wrong_shape_witness:
  "[ustr ''habits.json'' \<mapsto> Text (ustr ''[]'')] (ustr ''habits.json'') = Some (Text (ustr ''[]'')) \<and>
   json_loads (ustr ''[]'') = Some (JArr []) \<and> \<not> is_dict (JArr []) \<and> Add (ustr ''Gym'') [] (ustr ''daily'') \<noteq> Reset \<and>
   tracker_init (ustr ''habits.json'') [ustr ''habits.json'' \<mapsto> Text (ustr ''[]'')] =
     Inr \<lparr>filename = ustr ''habits.json'', habits = JArr [], disk = [ustr ''habits.json'' \<mapsto> Text (ustr ''[]'')]\<rparr> \<and>
   JArr [] \<noteq> store_json []"
proof -
  have h1: "[ustr ''habits.json'' \<mapsto> Text (ustr ''[]'')] (ustr ''habits.json'') = Some (Text (ustr ''[]''))" by simp
  have h2: "json_loads (ustr ''[]'') = Some (JArr [])" by (simp add: json_loads_def)
  have h3: "\<not> is_dict (JArr [])" by (simp add: is_dict_def)
  have h4: "Add (ustr ''Gym'') [] (ustr ''daily'') \<noteq> Reset" by simp
  from tracker_init_wrong_shape [where d = "[ustr ''habits.json'' \<mapsto> Text (ustr ''[]'')]" and fn = "ustr ''habits.json''"
      and t = "ustr ''[]''" and v = "JArr []" and op = "Add (ustr ''Gym'') [] (ustr ''daily'')" and hs = "[]",
      OF h1 h2 h3 h4] h1 h2 h3 h4
  show ?thesis by blast
qed

end
