(* ===== verification/Json_Roundtrip.thy ===== *)
theory Json_Roundtrip
  imports Json
begin


text \<open>
  The round trip of the persistence format: \<^verbatim>\<open>json.load\<close> gives back what
  \<^verbatim>\<open>json.dump(..., indent=4)\<close> wrote (theorem \<open>json_roundtrip\<close>), for every value
  whose strings hold code points below U+110000 and no high surrogate directly followed by
  a low one (\<open>valid_str\<close>) and whose objects have distinct keys (\<open>json_ok\<close>).
  The lemmas first show that the parser consumes input (\<open>parse_progress\<close>), that
  \<open>2 * length s\<close> fuel is enough (\<open>parse_fuel_enough\<close>) and that more fuel changes
  nothing (\<open>parse_fuel_mono\<close>); then, component by component, that each printed piece
  is scanned back: \<open>hex4_val_hex4\<close>, \<open>scan_str_encode\<close>, \<open>scan_int_repr\<close>,
  \<open>scan_exp_int_repr\<close>, and the mutual induction \<open>parse_dumps\<close> over the fuel.
  Last, the printer writes code points below 128 only (\<open>dumps_at_ascii\<close>).
\<close>

section \<open>Predicates of the round trip\<close>


fun no_sur_pair :: "pystr \<Rightarrow> bool" where
  "no_sur_pair (a # b # r) = (\<not> (is_high a \<and> is_low b) \<and> no_sur_pair (b # r))"
| "no_sur_pair _ = True"

definition valid_str :: "pystr \<Rightarrow> bool" where
  "valid_str s \<longleftrightarrow> (\<forall>c \<in> set s. c < 1114112) \<and> no_sur_pair s"

fun json_ok :: "jval \<Rightarrow> bool" where
  "json_ok (JStr s) = valid_str s"
| "json_ok (JArr xs) = (\<forall>x \<in> set xs. json_ok x)"
| "json_ok (JObj ps) = (distinct (map fst ps) \<and> (\<forall>p \<in> set ps. valid_str (fst p) \<and> json_ok (snd p)))"
| "json_ok _ = True"

definition printable :: "nat \<Rightarrow> bool" where
  "printable c \<longleftrightarrow> 32 \<le> c \<and> c \<le> 126 \<and> c \<noteq> 92 \<and> c \<noteq> 34"

definition short_esc :: "nat \<Rightarrow> bool" where
  "short_esc c \<longleftrightarrow> c \<in> {92, 34, 8, 12, 10, 13, 9}"

abbreviation arr_body :: "nat \<Rightarrow> jval list \<Rightarrow> pystr" where
  "arr_body l xs \<equiv> join_with (44 # newline_indent (Suc l)) (map (dumps_at (Suc l)) xs)"

abbreviation obj_body :: "nat \<Rightarrow> (pystr \<times> jval) list \<Rightarrow> pystr" where
  "obj_body l ps \<equiv> join_with (44 # newline_indent (Suc l))
     (map (\<lambda>(k, v). encode_str k @ 58 # 32 # dumps_at (Suc l) v) ps)"

definition val_end :: "pystr \<Rightarrow> bool" where
  "val_end r \<longleftrightarrow> r = [] \<or> hd r = 44 \<or> hd r = 10"

definition num_end :: "pystr \<Rightarrow> bool" where
  "num_end r \<longleftrightarrow> r = [] \<or> \<not> is_digit (hd r)"

section \<open>Lemmas\<close>


declare dec_digits.simps [simp del]

lemma dec_digits_lt [simp]: "n < 10 \<Longrightarrow> dec_digits n = [48 + n]"
  by (simp add: dec_digits.simps)

lemma dec_digits_ge [simp]: "\<not> n < 10 \<Longrightarrow> dec_digits n = dec_digits (n div 10) @ [48 + n mod 10]"
  by (simp add: dec_digits.simps)

subsection \<open>Progress and fuel\<close>


lemma length_skip_ws [simp]: "length (skip_ws s) \<le> length s"
  by (induction s) auto

lemma skip_ws_idem [simp]: "skip_ws (skip_ws s) = skip_ws s"
  by (induction s) auto

lemma scan_str_length: "scan_str acc s = Some (x, r) \<Longrightarrow> length r < length s"
proof (induction acc s rule: scan_str.induct)
  case (1 acc)
  then show ?case by simp
next
  case (2 acc c cs)
  note IH = "2.IH" and P = "2.prems"
  show ?case
  proof (cases "c = 34 \<or> c \<noteq> 92 \<and> c < 32")
    case True
    with P show ?thesis by (auto split: if_splits)
  next
    case nb: False
    then have c34: "c \<noteq> 34" by auto
    show ?thesis
    proof (cases "c = 92")
      case False
      with nb P have "scan_str (c # acc) cs = Some (x, r)" by auto
      from IH(5) [OF c34 False _ this] nb False show ?thesis by simp
    next
      case c92: True
      then obtain e r0 where cs: "cs = e # r0" using P by (cases cs) auto
      show ?thesis
      proof (cases "e = 117")
        case False
        with c92 cs P obtain y where y: "simple_escape e = Some y" and
          rec: "scan_str (y # acc) r0 = Some (x, r)"
          by (auto split: option.splits)
        from IH(4) [OF c34 c92 cs False y rec] cs show ?thesis by simp
      next
        case u: True
        with c92 cs P obtain v where r0: "\<not> length r0 < 5" and v: "hex4_val r0 = Some v"
          by (auto split: if_splits option.splits)
        show ?thesis
        proof (cases "is_high v \<and> 6 < length (drop 4 r0) \<and> take 2 (drop 4 r0) = [92, 117]")
          case hi: True
          with c92 c34 u cs P r0 v obtain v2 where v2: "hex4_val (drop 6 r0) = Some v2"
            by (auto split: option.splits)
          show ?thesis
          proof (cases "is_low v2")
            case True
            with c92 c34 u cs P r0 v hi v2
            have "scan_str ((65536 + (v - 55296) * 1024 + (v2 - 56320)) # acc) (drop 10 r0) = Some (x, r)"
              by simp
            from IH(1) [OF c34 c92 cs u r0 v hi v2 True this] cs show ?thesis by simp
          next
            case False
            with c92 c34 u cs P r0 v hi v2 have "scan_str (v # acc) (drop 4 r0) = Some (x, r)"
              by simp
            from IH(2) [OF c34 c92 cs u r0 v hi v2 False this] cs show ?thesis by simp
          qed
        next
          case False
          with c92 c34 u cs P r0 v have "scan_str (v # acc) (drop 4 r0) = Some (x, r)"
            by (auto split: if_splits)
          from IH(3) [OF c34 c92 cs u r0 v False this] cs show ?thesis by simp
        qed
      qed
    qed
  qed
qed

lemma dropWhile_lt_Suc [simp]:
  "length (dropWhile P xs) < Suc (length xs)"
  "length (dropWhile P xs) < Suc (Suc (length xs))"
  using length_dropWhile_le [of P xs] by simp_all

lemma le_dropWhile: "length r \<le> length (dropWhile P xs) \<Longrightarrow> length r \<le> length xs"
  using length_dropWhile_le order_trans by blast

lemma lt_dropWhile: "length r < length (dropWhile P xs) \<Longrightarrow> length r < length xs"
  using length_dropWhile_le order_less_le_trans by blast

lemma scan_frac_length: "scan_frac r = (fp, r2) \<Longrightarrow> length r2 \<le> length r"
  by (induction r rule: scan_frac.induct) (auto simp: less_imp_le split: if_splits)

lemma scan_exp_length: "scan_exp r = Some (ex, r3) \<Longrightarrow> length r3 < length r"
  by (cases r rule: scan_exp.cases)
    (auto simp: Let_def le_imp_less_Suc length_dropWhile_le split: if_splits list.splits prod.splits)

lemma scan_number_length: "scan_number s = Some (v, r) \<Longrightarrow> length r < length s"
  unfolding scan_number_def
  by (auto simp: Let_def le_imp_less_Suc dest!: scan_frac_length scan_exp_length
       dest: le_dropWhile lt_dropWhile split: if_splits list.splits prod.splits option.splits)

lemma skip_ws_Cons_length: "skip_ws s = d # r' \<Longrightarrow> length r' < length s"
  using length_skip_ws [of s] by simp

lemma scan_word_length: "scan_word w s = Some r \<Longrightarrow> w \<noteq> [] \<Longrightarrow> length r < length s"
proof -
  assume a: "scan_word w s = Some r" and w: "w \<noteq> []"
  then have t: "take (length w) s = w" and r: "r = drop (length w) s"
    by (auto simp: scan_word_def split: if_splits)
  from t have "length (take (length w) s) = length w" by simp
  then have "length w \<le> length s" by (simp add: min_def split: if_splits)
  moreover from w have "0 < length w" by simp
  ultimately have "length s - length w < length s" by arith
  with r show ?thesis by simp
qed

lemma scan_const_length: "scan_const s = Some (v, r) \<Longrightarrow> length r < length s"
  by (auto simp: scan_const_def dest!: scan_word_length split: option.splits)

lemma parse_progress:
  "(pval n s = Inr (v, r) \<longrightarrow> length r < length s) \<and>
   (parr n acc s = Inr (v, r) \<longrightarrow> length r < length s) \<and>
   (pobj n ps s = Inr (v, r) \<longrightarrow> length r < length s)"
proof (induction n arbitrary: s acc ps v r)
  case 0
  then show ?case by simp
next
  case (Suc n)
  have pv: "length r < length s" if "pval (Suc n) s = Inr (v, r)" for s v r
  proof (cases s)
    case Nil
    with that show ?thesis by simp
  next
    case (Cons c r0)
    show ?thesis
    proof (cases "c = 34 \<or> c = 123 \<or> c = 91")
      case True
      with that Cons show ?thesis
        by (auto split: if_splits option.splits list.splits
            dest!: scan_str_length skip_ws_Cons_length Suc.IH [THEN conjunct1, rule_format]
                   Suc.IH [THEN conjunct2, THEN conjunct1, rule_format]
                   Suc.IH [THEN conjunct2, THEN conjunct2, rule_format])
    next
      case False
      with that Cons show ?thesis
        by (auto split: option.splits dest!: scan_const_length scan_number_length)
    qed
  qed
  have pa: "length r < length s" if "parr (Suc n) acc s = Inr (v, r)" for acc s v r
  proof -
    from that obtain v0 r0 where p0: "pval n s = Inr (v0, r0)"
      by (auto split: sum.splits prod.splits)
    then have l0: "length r0 < length s" by (rule Suc.IH [THEN conjunct1, rule_format])
    from that p0 obtain d r' where sk: "skip_ws r0 = d # r'"
      by (auto split: list.splits)
    with l0 have l1: "length r' < length s" using skip_ws_Cons_length by fastforce
    show ?thesis
    proof (cases "d = 93")
      case True
      with that p0 sk l1 show ?thesis by auto
    next
      case False
      with that p0 sk have "d = 44" and "parr n (acc @ [v0]) (skip_ws r') = Inr (v, r)"
        by (auto split: if_splits)
      then have "length r < length (skip_ws r')" by (intro Suc.IH [THEN conjunct2, THEN conjunct1, rule_format])
      with l1 length_skip_ws [of r'] show ?thesis by linarith
    qed
  qed
  have po: "length r < length s" if "pobj (Suc n) ps s = Inr (v, r)" for ps s v r
  proof (cases s)
    case Nil
    with that show ?thesis by simp
  next
    case (Cons c r0)
    with that obtain k r1 d r2 v0 r3 where
      k: "scan_str [] r0 = Some (k, r1)" and sk1: "skip_ws r1 = d # r2" and
      p0: "pval n (skip_ws r2) = Inr (v0, r3)"
      by (auto split: if_splits option.splits list.splits sum.splits prod.splits)
    from k have "length r1 < length r0" by (rule scan_str_length)
    moreover from sk1 have "length r2 < length r1" by (rule skip_ws_Cons_length)
    moreover from p0 have "length r3 < length (skip_ws r2)" by (rule Suc.IH [THEN conjunct1, rule_format])
    ultimately have "length r3 < length r0" using length_skip_ws [of r2] by linarith
    with Cons have l3: "length r3 < length s" by simp
    from that Cons k sk1 p0 obtain d' r4 where sk3: "skip_ws r3 = d' # r4"
      by (auto split: if_splits list.splits)
    then have l4: "length r4 < length s" using l3 skip_ws_Cons_length by fastforce
    show ?thesis
    proof (cases "d' = 125")
      case True
      with that Cons k sk1 p0 sk3 l4 show ?thesis by (auto split: if_splits)
    next
      case False
      with that Cons k sk1 p0 sk3 have "pobj n (dict_set k v0 ps) (skip_ws r4) = Inr (v, r)"
        by (auto split: if_splits)
      then have "length r < length (skip_ws r4)" by (intro Suc.IH [THEN conjunct2, THEN conjunct2, rule_format])
      with l4 length_skip_ws [of r4] show ?thesis by linarith
    qed
  qed
  from pv pa po show ?case by blast
qed

lemmas pval_progress = parse_progress [THEN conjunct1, rule_format]

lemma parse_fuel_enough:
  "(2 * length s < n \<longrightarrow> pval n s \<noteq> Inl OutOfFuel) \<and>
   (Suc (2 * length s) < n \<longrightarrow> parr n acc s \<noteq> Inl OutOfFuel) \<and>
   (Suc (2 * length s) < n \<longrightarrow> pobj n ps s \<noteq> Inl OutOfFuel)"
proof (induction n arbitrary: s acc ps)
  case 0
  then show ?case by simp
next
  case (Suc n)
  note IHv = Suc.IH [THEN conjunct1, rule_format]
    and IHa = Suc.IH [THEN conjunct2, THEN conjunct1, rule_format]
    and IHo = Suc.IH [THEN conjunct2, THEN conjunct2, rule_format]
  have pv: "pval (Suc n) s \<noteq> Inl OutOfFuel" if f: "2 * length s < Suc n" for s
  proof (cases s)
    case Nil
    then show ?thesis by simp
  next
    case (Cons c r0)
    have sub: "Suc (2 * length (d # r')) < n" if "skip_ws r0 = d # r'" for d r'
    proof -
      from that have "length (d # r') \<le> length r0" using length_skip_ws [of r0] by simp
      with f Cons show ?thesis by simp
    qed
    show ?thesis
    proof (cases "c = 123 \<or> c = 91")
      case True
      with Cons show ?thesis
        by (auto split: list.splits if_splits dest!: sub dest: IHa IHo)
    next
      case False
      with Cons show ?thesis by (auto split: option.splits prod.splits)
    qed
  qed
  have pa: "parr (Suc n) acc s \<noteq> Inl OutOfFuel" if f: "Suc (2 * length s) < Suc n" for acc s
  proof (cases "pval n s")
    case (Inl e)
    from f have "pval n s \<noteq> Inl OutOfFuel" by (intro IHv) simp
    with Inl show ?thesis by simp
  next
    case (Inr p)
    obtain v0 r0 where p: "p = (v0, r0)" by fastforce
    with Inr have "length r0 < length s" by (auto intro: pval_progress)
    show ?thesis
    proof (cases "skip_ws r0")
      case Nil
      with Inr p show ?thesis by simp
    next
      case (Cons d r')
      with \<open>length r0 < length s\<close> have "length r' < length s" using skip_ws_Cons_length by fastforce
      then have "Suc (2 * length (skip_ws r')) < n"
        using f length_skip_ws [of r'] by linarith
      then have "parr n (acc @ [v0]) (skip_ws r') \<noteq> Inl OutOfFuel" by (rule IHa)
      with Inr p Cons show ?thesis by auto
    qed
  qed
  have po: "pobj (Suc n) ps s \<noteq> Inl OutOfFuel" if f: "Suc (2 * length s) < Suc n" for ps s
  proof (cases s)
    case Nil
    then show ?thesis by simp
  next
    case (Cons c r0)
    show ?thesis
    proof (cases "c = 34")
      case False
      with Cons show ?thesis by simp
    next
      case True
      show ?thesis
      proof (cases "scan_str [] r0")
        case None
        with Cons True show ?thesis by simp
      next
        case (Some kr)
        obtain k r1 where kr: "kr = (k, r1)" by fastforce
        with Some have l1: "length r1 < length r0" by (auto dest: scan_str_length)
        show ?thesis
        proof (cases "skip_ws r1")
          case Nil
          with Cons True Some kr show ?thesis by simp
        next
          case (Cons d r2)
          have l2: "length r2 < length r1" using Cons skip_ws_Cons_length by fastforce
          show ?thesis
          proof (cases "d = 58")
            case False
            with \<open>s = c # r0\<close> True Some kr Cons show ?thesis by simp
          next
            case d58: True
            have ls: "length s = Suc (length r0)" using \<open>s = c # r0\<close> by simp
            have "2 * length (skip_ws r2) < n"
              using f ls l1 l2 length_skip_ws [of r2] by linarith
            then have pv0: "pval n (skip_ws r2) \<noteq> Inl OutOfFuel" by (rule IHv)
            show ?thesis
            proof (cases "pval n (skip_ws r2)")
              case (Inl e)
              with pv0 \<open>s = c # r0\<close> True Some kr Cons d58 show ?thesis by simp
            next
              case (Inr q)
              obtain v0 r3 where q: "q = (v0, r3)" by fastforce
              with Inr have l3: "length r3 < length (skip_ws r2)" by (auto intro: pval_progress)
              show ?thesis
              proof (cases "skip_ws r3")
                case Nil
                with \<open>s = c # r0\<close> True Some kr Cons d58 Inr q show ?thesis by simp
              next
                case c3: (Cons d' r4)
                have l4: "length r4 < length r3" using c3 skip_ws_Cons_length by fastforce
                have "Suc (2 * length (skip_ws r4)) < n"
                  using f ls l1 l2 l3 l4 length_skip_ws [of r2] length_skip_ws [of r4] by linarith
                then have "pobj n (dict_set k v0 ps) (skip_ws r4) \<noteq> Inl OutOfFuel" by (rule IHo)
                with \<open>s = c # r0\<close> True Some kr Cons d58 Inr q c3 show ?thesis by auto
              qed
            qed
          qed
        qed
      qed
    qed
  qed
  show ?case using pv pa po by blast
qed

lemmas pval_fuel_enough = parse_fuel_enough [THEN conjunct1, rule_format]

lemma parse_fuel_mono:
  "(pval n s \<noteq> Inl OutOfFuel \<longrightarrow> pval (Suc n) s = pval n s) \<and>
   (parr n acc s \<noteq> Inl OutOfFuel \<longrightarrow> parr (Suc n) acc s = parr n acc s) \<and>
   (pobj n ps s \<noteq> Inl OutOfFuel \<longrightarrow> pobj (Suc n) ps s = pobj n ps s)"
proof (induction n arbitrary: s acc ps)
  case 0
  then show ?case by simp
next
  case (Suc n)
  note IHv = Suc.IH [THEN conjunct1, rule_format]
    and IHa = Suc.IH [THEN conjunct2, THEN conjunct1, rule_format]
    and IHo = Suc.IH [THEN conjunct2, THEN conjunct2, rule_format]
  have pv: "pval (Suc (Suc n)) s = pval (Suc n) s" if h: "pval (Suc n) s \<noteq> Inl OutOfFuel" for s
  proof (cases s)
    case Nil
    then show ?thesis by simp
  next
    case (Cons c r0)
    have e1: "pval (Suc (Suc n)) (c # r0) =
      (if c = 34 then (case scan_str [] r0 of None \<Rightarrow> Inl DecodeError | Some (x, r') \<Rightarrow> Inr (JStr x, r'))
       else if c = 123 then
         (case skip_ws r0 of [] \<Rightarrow> Inl DecodeError
          | d # r' \<Rightarrow> if d = 125 then Inr (JObj [], r') else pobj (Suc n) [] (d # r'))
       else if c = 91 then
         (case skip_ws r0 of [] \<Rightarrow> Inl DecodeError
          | d # r' \<Rightarrow> if d = 93 then Inr (JArr [], r') else parr (Suc n) [] (d # r'))
       else (case scan_const (c # r0) of Some (v, r') \<Rightarrow> Inr (v, r')
             | None \<Rightarrow> (case scan_number (c # r0) of None \<Rightarrow> Inl DecodeError | Some (v, r') \<Rightarrow> Inr (v, r'))))"
      by (rule pval.simps(3))
    have e2: "pval (Suc n) (c # r0) =
      (if c = 34 then (case scan_str [] r0 of None \<Rightarrow> Inl DecodeError | Some (x, r') \<Rightarrow> Inr (JStr x, r'))
       else if c = 123 then
         (case skip_ws r0 of [] \<Rightarrow> Inl DecodeError
          | d # r' \<Rightarrow> if d = 125 then Inr (JObj [], r') else pobj n [] (d # r'))
       else if c = 91 then
         (case skip_ws r0 of [] \<Rightarrow> Inl DecodeError
          | d # r' \<Rightarrow> if d = 93 then Inr (JArr [], r') else parr n [] (d # r'))
       else (case scan_const (c # r0) of Some (v, r') \<Rightarrow> Inr (v, r')
             | None \<Rightarrow> (case scan_number (c # r0) of None \<Rightarrow> Inl DecodeError | Some (v, r') \<Rightarrow> Inr (v, r'))))"
      by (rule pval.simps(3))
    from h Cons show ?thesis
      unfolding Cons e1 e2 by (auto simp del: pval.simps parr.simps pobj.simps simp: IHa IHo split: list.splits)
  qed
  have pa: "parr (Suc (Suc n)) acc s = parr (Suc n) acc s" if h: "parr (Suc n) acc s \<noteq> Inl OutOfFuel" for acc s
  proof -
    have e1: "parr (Suc (Suc n)) acc s =
      (case pval (Suc n) s of Inl e \<Rightarrow> Inl e
       | Inr (v, r) \<Rightarrow> (case skip_ws r of [] \<Rightarrow> Inl DecodeError
           | d # r' \<Rightarrow> if d = 93 then Inr (JArr (acc @ [v]), r')
                      else if d = 44 then parr (Suc n) (acc @ [v]) (skip_ws r') else Inl DecodeError))"
      by (rule parr.simps(2))
    have e2: "parr (Suc n) acc s =
      (case pval n s of Inl e \<Rightarrow> Inl e
       | Inr (v, r) \<Rightarrow> (case skip_ws r of [] \<Rightarrow> Inl DecodeError
           | d # r' \<Rightarrow> if d = 93 then Inr (JArr (acc @ [v]), r')
                      else if d = 44 then parr n (acc @ [v]) (skip_ws r') else Inl DecodeError))"
      by (rule parr.simps(2))
    from h have "pval n s \<noteq> Inl OutOfFuel" unfolding e2 by (auto split: sum.splits)
    then have ev: "pval (Suc n) s = pval n s" by (rule IHv)
    from h show ?thesis
      unfolding e1 e2 ev by (auto simp del: pval.simps parr.simps pobj.simps simp: IHa split: sum.splits prod.splits list.splits)
  qed
  have po: "pobj (Suc (Suc n)) ps s = pobj (Suc n) ps s" if h: "pobj (Suc n) ps s \<noteq> Inl OutOfFuel" for ps s
  proof (cases s)
    case Nil
    then show ?thesis by simp
  next
    case (Cons c r0)
    have e1: "pobj (Suc (Suc n)) ps (c # r0) =
     (if c \<noteq> 34 then Inl DecodeError
      else case scan_str [] r0 of None \<Rightarrow> Inl DecodeError
      | Some (k, r1) \<Rightarrow> (case skip_ws r1 of [] \<Rightarrow> Inl DecodeError
          | d # r2 \<Rightarrow> if d \<noteq> 58 then Inl DecodeError
              else case pval (Suc n) (skip_ws r2) of Inl e \<Rightarrow> Inl e
              | Inr (v, r3) \<Rightarrow> (case skip_ws r3 of [] \<Rightarrow> Inl DecodeError
                  | d' # r4 \<Rightarrow> if d' = 125 then Inr (JObj (dict_set k v ps), r4)
                      else if d' = 44 then pobj (Suc n) (dict_set k v ps) (skip_ws r4)
                      else Inl DecodeError)))"
      by (rule pobj.simps(3))
    have e2: "pobj (Suc n) ps (c # r0) =
     (if c \<noteq> 34 then Inl DecodeError
      else case scan_str [] r0 of None \<Rightarrow> Inl DecodeError
      | Some (k, r1) \<Rightarrow> (case skip_ws r1 of [] \<Rightarrow> Inl DecodeError
          | d # r2 \<Rightarrow> if d \<noteq> 58 then Inl DecodeError
              else case pval n (skip_ws r2) of Inl e \<Rightarrow> Inl e
              | Inr (v, r3) \<Rightarrow> (case skip_ws r3 of [] \<Rightarrow> Inl DecodeError
                  | d' # r4 \<Rightarrow> if d' = 125 then Inr (JObj (dict_set k v ps), r4)
                      else if d' = 44 then pobj n (dict_set k v ps) (skip_ws r4)
                      else Inl DecodeError)))"
      by (rule pobj.simps(3))
    from h Cons show ?thesis
      unfolding Cons e1 e2
      by (auto simp del: pval.simps parr.simps pobj.simps simp: IHv IHo split: sum.splits prod.splits list.splits option.splits if_splits)
  qed
  show ?case using pv pa po by blast
qed

subsection \<open>Printing then parsing\<close>


lemma hex_val_digit [simp]: "d < 16 \<Longrightarrow> hex_val (hex_digit d) = Some d"
  by (auto simp: hex_val_def hex_digit_def)

lemma hex4_digits: "(n::nat) < 65536 \<Longrightarrow>
  4096 * (n div 4096) + 256 * (n div 256 mod 16) + 16 * (n div 16 mod 16) + n mod 16 = n"
proof -
  assume "n < 65536"
  have "n div 256 = 16 * (n div 4096) + n div 256 mod 16"
    using div_mult_mod_eq [of "n div 256" 16] by (simp add: div_mult2_eq [symmetric])
  moreover have "n div 16 = 16 * (n div 256) + n div 16 mod 16"
    using div_mult_mod_eq [of "n div 16" 16] by (simp add: div_mult2_eq [symmetric])
  moreover have "n = 16 * (n div 16) + n mod 16"
    using div_mult_mod_eq [of n 16] by simp
  ultimately show ?thesis by linarith
qed

lemma hex4_val_hex4 [simp]: "n < 65536 \<Longrightarrow> hex4_val (hex4 n @ r) = Some n"
  by (simp add: hex4_def hex4_digits)

lemma digits_val_snoc [simp]: "digits_val (xs @ [d]) = 10 * digits_val xs + (d - 48)"
  by (simp add: digits_val_def)

lemma digits_val_dec_digits [simp]: "digits_val (dec_digits n) = n"
proof (induction n rule: dec_digits.induct)
  case (1 n)
  then show ?case by (cases "n < 10") (simp_all add: digits_val_def)
qed

lemma dec_digits_is_digit: "c \<in> set (dec_digits n) \<Longrightarrow> is_digit c"
proof (induction n rule: dec_digits.induct)
  case (1 n)
  then show ?case
    by (cases "n < 10") (auto simp: is_digit_def)
qed

lemma dec_digits_Cons: "\<exists>c t. dec_digits n = c # t \<and> is_digit c \<and> (c = 48 \<longrightarrow> n = 0 \<and> t = [])"
proof (induction n rule: dec_digits.induct)
  case (1 n)
  show ?case
  proof (cases "n < 10")
    case True
    then show ?thesis by (simp add: is_digit_def)
  next
    case False
    with "1.IH" obtain c t where "dec_digits (n div 10) = c # t" "is_digit c" "c = 48 \<longrightarrow> n div 10 = 0"
      by blast
    with False show ?thesis by auto
  qed
qed

lemma takeWhile_digits:
  "\<forall>c \<in> set ds. is_digit c \<Longrightarrow> num_end r \<Longrightarrow> takeWhile is_digit (ds @ r) = ds"
  by (cases r) (auto simp: num_end_def takeWhile_append2)

lemma dropWhile_digits:
  "\<forall>c \<in> set ds. is_digit c \<Longrightarrow> num_end r \<Longrightarrow> dropWhile is_digit (ds @ r) = r"
  by (cases r) (auto simp: num_end_def dropWhile_append2)

lemma scan_number_dec:
  assumes "num_end r" "scan_frac r = ([], r)"
  shows "scan_number (dec_digits k @ r) =
           (case scan_exp r of None \<Rightarrow> Some (JInt (int k), r)
            | Some (ex, r3) \<Rightarrow> Some (JFloat (Finite (int k) ex), r3))"
    and "scan_number (45 # dec_digits k @ r) =
           (case scan_exp r of None \<Rightarrow> Some (JInt (- int k), r)
            | Some (ex, r3) \<Rightarrow> Some (JFloat (Finite (- int k) ex), r3))"
proof -
  obtain c t where ct: "dec_digits k = c # t" "is_digit c" "c = 48 \<longrightarrow> k = 0 \<and> t = []"
    using dec_digits_Cons by blast
  have dt: "\<forall>x \<in> set t. is_digit x" using dec_digits_is_digit [of _ k] ct(1) by auto
  have c45: "c \<noteq> 45" using ct(2) by (simp add: is_digit_def)
  have val: "digits_val (c # t) = k" using digits_val_dec_digits [of k] ct(1) by simp
  have tw: "takeWhile is_digit (t @ r) = t" "dropWhile is_digit (t @ r) = r"
    using takeWhile_digits [OF dt assms(1)] dropWhile_digits [OF dt assms(1)] by auto
  show "scan_number (dec_digits k @ r) =
           (case scan_exp r of None \<Rightarrow> Some (JInt (int k), r)
            | Some (ex, r3) \<Rightarrow> Some (JFloat (Finite (int k) ex), r3))"
    using ct c45 val tw assms(2) by (auto simp: scan_number_def split: option.splits)
  show "scan_number (45 # dec_digits k @ r) =
           (case scan_exp r of None \<Rightarrow> Some (JInt (- int k), r)
            | Some (ex, r3) \<Rightarrow> Some (JFloat (Finite (- int k) ex), r3))"
    using ct val tw assms(2) by (auto simp: scan_number_def split: option.splits)
qed

lemma hex_digit_lt: "hex_digit d \<noteq> 34"
  by (simp add: hex_digit_def)

lemma length_hex4 [simp]: "length (hex4 n) = 4"
  by (simp add: hex4_def)

lemma scan_str_bmp:
  assumes "c < 65536" "t \<noteq> []"
    and "is_high c \<Longrightarrow> take 2 t = [92, 117] \<Longrightarrow> \<exists>w. hex4_val (drop 2 t) = Some w \<and> \<not> is_low w"
  shows "scan_str acc (u_escape c @ t) = scan_str (c # acc) t"
proof -
  have r: "hex4_val (hex4 c @ t) = Some c" "drop 4 (hex4 c @ t) = t" "\<not> length (hex4 c @ t) < 5"
    using assms(1,2) by (auto simp: Suc_le_eq)
  show ?thesis
    using assms(3) by (simp add: u_escape_def r split: option.splits) (auto simp: drop_Suc)
qed

lemma surrogate_split:
  assumes "65536 \<le> c" "c < 1114112"
  shows "is_high (55296 + (c - 65536) div 1024 mod 1024)"
    and "is_low (56320 + (c - 65536) mod 1024)"
    and "65536 + (55296 + (c - 65536) div 1024 mod 1024 - 55296) * 1024 + (56320 + (c - 65536) mod 1024 - 56320) = c"
proof -
  have "(c - 65536) div 1024 < 1024" using assms by simp
  then have m: "(c - 65536) div 1024 mod 1024 = (c - 65536) div 1024" by simp
  show "is_high (55296 + (c - 65536) div 1024 mod 1024)"
    using \<open>(c - 65536) div 1024 < 1024\<close> by (simp add: is_high_def m)
  show "is_low (56320 + (c - 65536) mod 1024)"
    by (simp add: is_low_def)
  show "65536 + (55296 + (c - 65536) div 1024 mod 1024 - 55296) * 1024 + (56320 + (c - 65536) mod 1024 - 56320) = c"
    using assms div_mult_mod_eq [of "c - 65536" 1024] by (simp add: m)
qed

lemma scan_str_u_step:
  assumes "\<not> length r < 5" "hex4_val r = Some v"
  shows "scan_str acc (92 # 117 # r) =
    (if is_high v \<and> 6 < length (drop 4 r) \<and> take 2 (drop 4 r) = [92, 117] then
       (case hex4_val (drop 6 r) of
          None \<Rightarrow> None
        | Some v2 \<Rightarrow>
            if is_low v2
            then scan_str ((65536 + (v - 55296) * 1024 + (v2 - 56320)) # acc) (drop 10 r)
            else scan_str (v # acc) (drop 4 r))
     else scan_str (v # acc) (drop 4 r))"
  by (subst scan_str.simps) (simp add: assms del: scan_str.simps)

lemma scan_str_astral:
  assumes "65536 \<le> c" "c < 1114112" "t \<noteq> []"
  shows "scan_str acc (esc_char c @ t) = scan_str (c # acc) t"
proof -
  define hi where "hi = 55296 + (c - 65536) div 1024 mod 1024"
  define lo where "lo = 56320 + (c - 65536) mod 1024"
  have hl: "is_high hi" "is_low lo" "65536 + (hi - 55296) * 1024 + (lo - 56320) = c"
    using surrogate_split [OF assms(1,2)] by (simp_all add: hi_def lo_def)
  have b: "hi < 65536" "lo < 65536" using hl(1,2) by (simp_all add: is_high_def is_low_def)
  have e: "esc_char c = u_escape hi @ u_escape lo"
    using assms(1) unfolding esc_char_def hi_def lo_def by (simp only: if_not_P not_le, simp_all)
  let ?r = "hex4 hi @ 92 # 117 # hex4 lo @ t"
  have r: "hex4_val ?r = Some hi" "drop 4 ?r = 92 # 117 # hex4 lo @ t" "hex4_val (drop 6 ?r) = Some lo"
    "drop 10 ?r = t" "6 < length (drop 4 ?r)" "\<not> length ?r < 5" "take 2 (drop 4 ?r) = [92, 117]"
    using b assms(3) by simp_all
  have "scan_str acc (92 # 117 # ?r) = scan_str (c # acc) t"
    using r hl by (simp only: scan_str_u_step if_True simp_thms option.case)
  then show ?thesis
    unfolding e u_escape_def by (simp only: append_Cons append_assoc)
qed

lemma esc_char_astral:
  "65536 \<le> c \<Longrightarrow>
   esc_char c = u_escape (55296 + (c - 65536) div 1024 mod 1024) @ u_escape (56320 + (c - 65536) mod 1024)"
  unfolding esc_char_def by (simp only: if_not_P not_le, simp_all)

lemma esc_char_printable: "printable c \<Longrightarrow> esc_char c = [c]"
  by (simp add: esc_char_def printable_def)

lemma esc_char_short: "short_esc c \<Longrightarrow> \<exists>e. esc_char c = [92, e] \<and> simple_escape e = Some c"
  by (auto simp: esc_char_def short_esc_def simple_escape_def)

lemma esc_char_bmp: "\<not> printable c \<Longrightarrow> \<not> short_esc c \<Longrightarrow> c < 65536 \<Longrightarrow> esc_char c = u_escape c"
  unfolding esc_char_def printable_def short_esc_def by (simp only: if_not_P if_P, simp_all)

lemma esc_char_u:
  assumes "esc_char c @ y = 92 # 117 # z" "c < 1114112"
  shows "\<exists>w. hex4_val z = Some w \<and> (is_low w \<longrightarrow> w = c)"
proof (cases "printable c")
  case True
  with assms(1) show ?thesis by (simp add: esc_char_printable printable_def)
next
  case np: False
  show ?thesis
  proof (cases "short_esc c")
    case True
    with assms(1) esc_char_short [of c] show ?thesis by (auto simp: simple_escape_def)
  next
    case ns: False
    show ?thesis
    proof (cases "c < 65536")
      case True
      with assms(1) np ns have "z = hex4 c @ y" by (simp add: esc_char_bmp u_escape_def)
      with True show ?thesis by simp
    next
      case False
      define hi where "hi = 55296 + (c - 65536) div 1024 mod 1024"
      have "is_high hi" using surrogate_split False assms(2) by (simp add: hi_def)
      then have "hi < 65536" "\<not> is_low hi" by (simp_all add: is_high_def is_low_def)
      moreover from False assms(1) have "z = hex4 hi @ u_escape (56320 + (c - 65536) mod 1024) @ y"
        by (simp add: esc_char_astral hi_def u_escape_def)
      ultimately show ?thesis by simp
    qed
  qed
qed

lemma scan_str_esc_char:
  assumes "c < 1114112" "t \<noteq> []"
    and "is_high c \<Longrightarrow> take 2 t = [92, 117] \<Longrightarrow> \<exists>w. hex4_val (drop 2 t) = Some w \<and> \<not> is_low w"
  shows "scan_str acc (esc_char c @ t) = scan_str (c # acc) t"
proof (cases "printable c")
  case True
  then show ?thesis by (simp add: esc_char_printable printable_def)
next
  case np: False
  show ?thesis
  proof (cases "short_esc c")
    case True
    then obtain e where "esc_char c = [92, e]" "simple_escape e = Some c"
      using esc_char_short by blast
    moreover then have "e \<noteq> 117" by (auto simp: simple_escape_def)
    ultimately show ?thesis by simp
  next
    case ns: False
    show ?thesis
    proof (cases "c < 65536")
      case True
      with np ns have "esc_char c = u_escape c" by (simp add: esc_char_bmp)
      with scan_str_bmp [OF True assms(2,3)] show ?thesis by simp
    next
      case False
      then show ?thesis using scan_str_astral assms(1,2) by simp
    qed
  qed
qed

lemma valid_str_Cons: "valid_str (c # s) \<Longrightarrow> valid_str s"
  by (cases s) (auto simp: valid_str_def)

lemma scan_str_encode:
  "valid_str s \<Longrightarrow> scan_str acc (concat (map esc_char s) @ 34 # rest) = Some (rev acc @ s, rest)"
proof (induction s arbitrary: acc)
  case Nil
  then show ?case by simp
next
  case (Cons c s)
  let ?t = "concat (map esc_char s) @ 34 # rest"
  have c: "c < 1114112" using Cons.prems by (simp add: valid_str_def)
  have nxt: "\<exists>w. hex4_val (drop 2 ?t) = Some w \<and> \<not> is_low w"
    if hi: "is_high c" and tk: "take 2 ?t = [92, 117]"
  proof (cases s)
    case Nil
    with tk show ?thesis by simp
  next
    case (Cons c2 s2)
    have "esc_char c2 @ concat (map esc_char s2) @ 34 # rest = 92 # 117 # drop 2 ?t"
      using tk Cons by (metis append_take_drop_id append.assoc concat.simps(2) list.simps(9) append_Cons append_Nil)
    moreover have "c2 < 1114112" "\<not> is_low c2"
      using \<open>valid_str (c # s)\<close> hi Cons by (auto simp: valid_str_def)
    ultimately show ?thesis using esc_char_u by blast
  qed
  have "scan_str acc (esc_char c @ ?t) = scan_str (c # acc) ?t"
    using scan_str_esc_char [OF c _ nxt] by simp
  with Cons.IH [OF valid_str_Cons [OF Cons.prems]] show ?case by simp
qed

lemma skip_ws_replicate [simp]: "skip_ws (replicate k 32 @ s) = skip_ws s"
  by (induction k) auto

lemma skip_ws_newline_indent [simp]: "skip_ws (newline_indent l @ s) = skip_ws s"
  by (simp add: newline_indent_def)

lemma int_repr_Cons: "\<exists>c t. int_repr i @ r = c # t \<and> (c = 45 \<or> is_digit c) \<and> (c = 45 \<longrightarrow> (\<exists>d t'. t = d # t' \<and> is_digit d))"
proof -
  obtain c t where "dec_digits (nat \<bar>i\<bar>) = c # t" "is_digit c" using dec_digits_Cons by blast
  then show ?thesis by (auto simp: int_repr_def is_digit_def)
qed

lemma dumps_at_Cons: "\<exists>c t. dumps_at l v @ r = c # t \<and> 34 \<le> c \<and> c \<le> 123 \<and> c \<noteq> 93"
proof (cases v)
  case (JInt i)
  then show ?thesis using int_repr_Cons [of i r] by (auto simp: is_digit_def)
next
  case (JFloat f)
  then show ?thesis
  proof (cases f)
    case (Finite m e)
    with JFloat show ?thesis using int_repr_Cons [of m "101 # int_repr e @ r"] by (auto simp: is_digit_def float_repr_def)
  qed (simp_all add: float_repr_def)
next
  case (JBool b)
  then show ?thesis by (cases b) simp_all
qed (simp_all add: encode_str_def)

lemma skip_ws_dumps_at [simp]: "skip_ws (dumps_at l v @ r) = dumps_at l v @ r"
  using dumps_at_Cons [of l v r] by (auto simp: is_ws_def)

lemma scan_frac_nodot: "r = [] \<or> hd r \<noteq> 46 \<Longrightarrow> scan_frac r = ([], r)"
  by (cases r rule: scan_frac.cases) auto

lemma scan_exp_none: "r = [] \<or> hd r \<noteq> 101 \<and> hd r \<noteq> 69 \<Longrightarrow> scan_exp r = None"
  by (cases r) auto

lemma val_end_num_end: "val_end r \<Longrightarrow> num_end r"
  by (auto simp: val_end_def num_end_def is_digit_def)

lemma scan_int_repr:
  assumes "num_end r" "scan_frac r = ([], r)"
  shows "scan_number (int_repr i @ r) =
           (case scan_exp r of None \<Rightarrow> Some (JInt i, r)
            | Some (ex, r3) \<Rightarrow> Some (JFloat (Finite i ex), r3))"
proof (cases "i < 0")
  case True
  define k where "k = nat (- i)"
  have ik: "i = - int k" "0 < k" using True by (simp_all add: k_def)
  show ?thesis unfolding ik(1) using scan_number_dec(2) [OF assms, of k] ik(2) by (simp add: int_repr_def)
next
  case False
  define k where "k = nat i"
  have ik: "i = int k" using False by (simp add: k_def)
  show ?thesis unfolding ik using scan_number_dec(1) [OF assms, of k] by (simp add: int_repr_def)
qed

lemma scan_exp_dec:
  assumes r: "num_end r"
  shows "scan_exp (101 # dec_digits k @ r) = Some (int k, r)"
    and "scan_exp (101 # 45 # dec_digits k @ r) = Some (- int k, r)"
proof -
  obtain c t where ct: "dec_digits k = c # t" "is_digit c" using dec_digits_Cons by blast
  have dt: "\<forall>x \<in> set (dec_digits k). is_digit x" using dec_digits_is_digit by blast
  have c45: "c \<noteq> 45" "c \<noteq> 43" using ct(2) by (auto simp: is_digit_def)
  have tw: "takeWhile is_digit (dec_digits k @ r) = dec_digits k" "dropWhile is_digit (dec_digits k @ r) = r"
    using takeWhile_digits [OF dt r] dropWhile_digits [OF dt r] by auto
  have ne: "dec_digits k \<noteq> []" using ct(1) by simp
  have v: "digits_val (c # t) = k" using ct(1) digits_val_dec_digits [of k] by simp
  show "scan_exp (101 # dec_digits k @ r) = Some (int k, r)"
    using tw ne c45 ct(1) v by (simp add: Let_def)
  show "scan_exp (101 # 45 # dec_digits k @ r) = Some (- int k, r)"
    using tw ne v ct(1) by (simp add: Let_def)
qed

lemma scan_exp_int_repr:
  assumes "num_end r" shows "scan_exp (101 # int_repr e @ r) = Some (e, r)"
proof (cases "e < 0")
  case True
  define k where "k = nat (- e)"
  have ek: "e = - int k" "0 < k" using True by (simp_all add: k_def)
  show ?thesis unfolding ek(1) using scan_exp_dec(2) [OF assms, of k] ek(2) by (simp add: int_repr_def)
next
  case False
  define k where "k = nat e"
  have ek: "e = int k" using False by (simp add: k_def)
  show ?thesis unfolding ek using scan_exp_dec(1) [OF assms, of k] by (simp add: int_repr_def)
qed

lemma scan_word_Cons_neq: "a \<noteq> c \<Longrightarrow> scan_word (a # w) (c # t) = None"
  by (simp add: scan_word_def)

lemma scan_word_Cons2_neq: "b \<noteq> d \<Longrightarrow> scan_word (a # b # w) (c # d # t) = None"
  by (simp add: scan_word_def)

lemma scan_const_digit: "is_digit c \<Longrightarrow> scan_const (c # t) = None"
  by (simp add: scan_const_def scan_word_Cons_neq is_digit_def)

lemma scan_const_minus_digit: "is_digit d \<Longrightarrow> scan_const (45 # d # t) = None"
  unfolding is_digit_def by (simp add: scan_const_def scan_word_Cons_neq scan_word_Cons2_neq)

lemma scan_const_int_repr: "scan_const (int_repr i @ r) = None"
proof -
  obtain c t where ct: "dec_digits (nat \<bar>i\<bar>) = c # t" "is_digit c"
    using dec_digits_Cons by blast
  show ?thesis
  proof (cases "i < 0")
    case True
    then have "int_repr i @ r = 45 # c # t @ r" using ct(1) by (simp add: int_repr_def)
    with ct(2) show ?thesis by (simp only: scan_const_minus_digit)
  next
    case False
    then have "int_repr i @ r = c # t @ r" using ct(1) by (simp add: int_repr_def)
    with ct(2) show ?thesis by (simp only: scan_const_digit)
  qed
qed

lemma int_repr_hd: "\<exists>c t. int_repr i @ r = c # t \<and> c \<noteq> 34 \<and> c \<noteq> 123 \<and> c \<noteq> 91"
proof -
  obtain c t where ct: "dec_digits (nat \<bar>i\<bar>) = c # t" "is_digit c"
    using dec_digits_Cons by blast
  then show ?thesis by (auto simp: int_repr_def is_digit_def)
qed

lemma pval_scalar:
  assumes "s = c # t" "c \<noteq> 34" "c \<noteq> 123" "c \<noteq> 91"
  shows "pval (Suc n) s = (case scan_const s of Some (v, r') \<Rightarrow> Inr (v, r')
            | None \<Rightarrow> (case scan_number s of None \<Rightarrow> Inl DecodeError | Some (v, r') \<Rightarrow> Inr (v, r')))"
  unfolding assms(1) using assms(2-4) by simp

lemma val_end_frac_exp: "val_end r \<Longrightarrow> num_end r \<and> scan_frac r = ([], r) \<and> scan_exp r = None"
  by (auto simp: val_end_def num_end_def is_digit_def intro: scan_frac_nodot scan_exp_none)

lemma pval_int_repr: "val_end r \<Longrightarrow> pval (Suc n) (int_repr i @ r) = Inr (JInt i, r)"
proof -
  assume r: "val_end r"
  obtain c t where "int_repr i @ r = c # t" "c \<noteq> 34" "c \<noteq> 123" "c \<noteq> 91"
    using int_repr_hd by blast
  from pval_scalar [OF this] show ?thesis
    using val_end_frac_exp [OF r] scan_int_repr [of r i] by (simp add: scan_const_int_repr)
qed

lemma pval_float_repr:
  "val_end r \<Longrightarrow> pval (Suc n) (int_repr m @ 101 # int_repr e @ r) = Inr (JFloat (Finite m e), r)"
proof -
  assume r: "val_end r"
  obtain c t where "int_repr m @ 101 # int_repr e @ r = c # t" "c \<noteq> 34" "c \<noteq> 123" "c \<noteq> 91"
    using int_repr_hd by blast
  moreover have "num_end (101 # int_repr e @ r)" "scan_frac (101 # int_repr e @ r) = ([], 101 # int_repr e @ r)"
    by (simp_all add: num_end_def is_digit_def scan_frac_nodot)
  moreover have "scan_exp (101 # int_repr e @ r) = Some (e, r)"
    using val_end_frac_exp [OF r] scan_exp_int_repr by blast
  ultimately show ?thesis
    using pval_scalar scan_int_repr [of "101 # int_repr e @ r" m] scan_const_int_repr [of m "101 # int_repr e @ r"]
    by simp
qed

lemma arr_body_Cons:
  "arr_body l (x # xs) @ s =
     dumps_at (Suc l) x @ (if xs = [] then s else 44 # newline_indent (Suc l) @ arr_body l xs @ s)"
  by (cases xs) simp_all

lemma obj_body_Cons:
  "obj_body l ((k, v) # xs) @ s =
     34 # concat (map esc_char k) @ 34 # 58 # 32 # dumps_at (Suc l) v @
       (if xs = [] then s else 44 # newline_indent (Suc l) @ obj_body l xs @ s)"
  by (cases xs) (simp_all add: encode_str_def)

lemma arr_body_hd:
  assumes "xs \<noteq> []"
  shows "\<exists>c t. arr_body l xs @ s = c # t \<and> \<not> is_ws c \<and> c \<noteq> 93"
proof -
  obtain x xs' where "xs = x # xs'" using assms by (cases xs) auto
  moreover obtain c t where "dumps_at (Suc l) x @ (if xs' = [] then s else 44 # newline_indent (Suc l) @ arr_body l xs' @ s) = c # t"
    "34 \<le> c" "c \<le> 123" "c \<noteq> 93"
    using dumps_at_Cons by blast
  ultimately have "arr_body l xs @ s = c # t" "\<not> is_ws c" "c \<noteq> 93"
    by (simp_all only: arr_body_Cons) (auto simp: is_ws_def)
  then show ?thesis by blast
qed

lemma obj_body_hd: "ps \<noteq> [] \<Longrightarrow> \<exists>t. obj_body l ps @ s = 34 # t"
proof -
  assume "ps \<noteq> []"
  then obtain k w ps' where "ps = (k, w) # ps'" by (metis list.exhaust surj_pair)
  then show ?thesis by (simp only: obj_body_Cons) blast
qed

lemma pval_dumps_const:
  "pval (Suc n) (dumps_at l JNull @ r) = Inr (JNull, r)"
  "pval (Suc n) (dumps_at l (JBool b) @ r) = Inr (JBool b, r)"
  "pval (Suc n) (dumps_at l (JFloat (Infinite p)) @ r) = Inr (JFloat (Infinite p), r)"
  "pval (Suc n) (dumps_at l (JFloat NaN) @ r) = Inr (JFloat NaN, r)"
  by (cases b, cases p, simp_all add: scan_const_def scan_word_def float_repr_def)

lemma pval_dumps_step:
  assumes IHa: "\<And>l acc xs r. xs \<noteq> [] \<Longrightarrow> \<forall>x \<in> set xs. json_ok x \<Longrightarrow>
      parr n acc (arr_body l xs @ newline_indent l @ 93 # r) \<noteq> Inl OutOfFuel \<Longrightarrow>
      parr n acc (arr_body l xs @ newline_indent l @ 93 # r) = Inr (JArr (acc @ xs), r)"
    and IHo: "\<And>l ps xs r. xs \<noteq> [] \<Longrightarrow> json_ok (JObj xs) \<Longrightarrow> \<forall>k \<in> set (map fst xs). map_of ps k = None \<Longrightarrow>
      pobj n ps (obj_body l xs @ newline_indent l @ 125 # r) \<noteq> Inl OutOfFuel \<Longrightarrow>
      pobj n ps (obj_body l xs @ newline_indent l @ 125 # r) = Inr (JObj (ps @ xs), r)"
    and ok: "json_ok v" and r: "val_end r"
    and nf: "pval (Suc n) (dumps_at l v @ r) \<noteq> Inl OutOfFuel"
  shows "pval (Suc n) (dumps_at l v @ r) = Inr (v, r)"
proof (cases v)
  case (JStr x)
  with ok have "valid_str x" by simp
  with JStr show ?thesis by (simp add: encode_str_def scan_str_encode)
next
  case (JInt i)
  with r show ?thesis by (simp add: pval_int_repr)
next
  case (JFloat f)
  show ?thesis
  proof (cases f)
    case (Finite m e)
    with JFloat r show ?thesis by (simp add: pval_float_repr float_repr_def)
  qed (use JFloat pval_dumps_const in simp_all)
next
  case (JArr xs)
  show ?thesis
  proof (cases "xs = []")
    case True
    with JArr show ?thesis by simp
  next
    case False
    obtain c t where ct: "arr_body l xs @ newline_indent l @ 93 # r = c # t" "\<not> is_ws c" "c \<noteq> 93"
      using arr_body_hd [OF False] by blast
    have e: "pval (Suc n) (dumps_at l v @ r) = parr n [] (arr_body l xs @ newline_indent l @ 93 # r)"
      using JArr False ct by (simp del: parr.simps)
    from ok JArr have xok: "\<forall>x \<in> set xs. json_ok x" by simp
    from nf have "parr n [] (arr_body l xs @ newline_indent l @ 93 # r) \<noteq> Inl OutOfFuel" unfolding e .
    from IHa [OF False xok this] JArr show ?thesis unfolding e by simp
  qed
next
  case (JObj ps)
  show ?thesis
  proof (cases "ps = []")
    case True
    with JObj show ?thesis by simp
  next
    case False
    obtain t where ct: "obj_body l ps @ newline_indent l @ 125 # r = 34 # t"
      using obj_body_hd [OF False] by blast
    have e: "pval (Suc n) (dumps_at l v @ r) = pobj n [] (obj_body l ps @ newline_indent l @ 125 # r)"
      using JObj False ct by (simp del: pobj.simps)
    from ok JObj have pok: "json_ok (JObj ps)" by simp
    from nf have "pobj n [] (obj_body l ps @ newline_indent l @ 125 # r) \<noteq> Inl OutOfFuel" unfolding e .
    from IHo [OF False pok _ this] JObj show ?thesis unfolding e by simp
  qed
qed (use pval_dumps_const in simp_all)

lemma skip_ws_arr_body: "xs \<noteq> [] \<Longrightarrow> skip_ws (arr_body l xs @ s) = arr_body l xs @ s"
  using arr_body_hd [of xs l s] by auto

lemma skip_ws_obj_body: "ps \<noteq> [] \<Longrightarrow> skip_ws (obj_body l ps @ s) = obj_body l ps @ s"
  using obj_body_hd [of ps l s] by auto

lemma val_end_sep:
  "val_end (newline_indent l @ s)" "val_end (44 # s)"
  by (simp_all add: val_end_def newline_indent_def)

lemma parr_dumps_step:
  assumes IHv: "\<And>l v r. json_ok v \<Longrightarrow> val_end r \<Longrightarrow> pval n (dumps_at l v @ r) \<noteq> Inl OutOfFuel \<Longrightarrow>
      pval n (dumps_at l v @ r) = Inr (v, r)"
    and IHa: "\<And>l acc xs r. xs \<noteq> [] \<Longrightarrow> \<forall>x \<in> set xs. json_ok x \<Longrightarrow>
      parr n acc (arr_body l xs @ newline_indent l @ 93 # r) \<noteq> Inl OutOfFuel \<Longrightarrow>
      parr n acc (arr_body l xs @ newline_indent l @ 93 # r) = Inr (JArr (acc @ xs), r)"
    and ne: "xs \<noteq> []" and ok: "\<forall>x \<in> set xs. json_ok x"
    and nf: "parr (Suc n) acc (arr_body l xs @ newline_indent l @ 93 # r) \<noteq> Inl OutOfFuel"
  shows "parr (Suc n) acc (arr_body l xs @ newline_indent l @ 93 # r) = Inr (JArr (acc @ xs), r)"
proof -
  obtain x xs' where xs: "xs = x # xs'" using ne by (cases xs) auto
  define tl where "tl = (if xs' = [] then newline_indent l @ 93 # r
                         else 44 # newline_indent (Suc l) @ arr_body l xs' @ newline_indent l @ 93 # r)"
  have s: "arr_body l xs @ newline_indent l @ 93 # r = dumps_at (Suc l) x @ tl"
    unfolding xs tl_def by (simp only: arr_body_Cons)
  have ve: "val_end tl" by (simp add: tl_def val_end_sep)
  have eq: "parr (Suc n) acc (arr_body l xs @ newline_indent l @ 93 # r) =
     (case pval n (dumps_at (Suc l) x @ tl) of Inl e \<Rightarrow> Inl e
      | Inr (v, r0) \<Rightarrow> (case skip_ws r0 of [] \<Rightarrow> Inl DecodeError
          | d # r' \<Rightarrow> if d = 93 then Inr (JArr (acc @ [v]), r')
                     else if d = 44 then parr n (acc @ [v]) (skip_ws r') else Inl DecodeError))"
    unfolding s by (rule parr.simps(2))
  have "pval n (dumps_at (Suc l) x @ tl) \<noteq> Inl OutOfFuel"
    using nf unfolding eq by (auto split: sum.splits)
  then have pv: "pval n (dumps_at (Suc l) x @ tl) = Inr (x, tl)"
    using IHv ok xs ve by simp
  show ?thesis
  proof (cases "xs' = []")
    case True
    then show ?thesis unfolding eq pv using xs by (simp add: tl_def)
  next
    case False
    have rec: "parr (Suc n) acc (arr_body l xs @ newline_indent l @ 93 # r) =
        parr n (acc @ [x]) (arr_body l xs' @ newline_indent l @ 93 # r)"
      unfolding eq pv using False by (simp add: tl_def skip_ws_arr_body del: parr.simps)
    have "parr n (acc @ [x]) (arr_body l xs' @ newline_indent l @ 93 # r) \<noteq> Inl OutOfFuel"
      using nf unfolding rec .
    from IHa [OF False _ this] ok xs show ?thesis unfolding rec by simp
  qed
qed

lemma pobj_dumps_step:
  assumes IHv: "\<And>l v r. json_ok v \<Longrightarrow> val_end r \<Longrightarrow> pval n (dumps_at l v @ r) \<noteq> Inl OutOfFuel \<Longrightarrow>
      pval n (dumps_at l v @ r) = Inr (v, r)"
    and IHo: "\<And>l ps xs r. xs \<noteq> [] \<Longrightarrow> json_ok (JObj xs) \<Longrightarrow> \<forall>k \<in> set (map fst xs). map_of ps k = None \<Longrightarrow>
      pobj n ps (obj_body l xs @ newline_indent l @ 125 # r) \<noteq> Inl OutOfFuel \<Longrightarrow>
      pobj n ps (obj_body l xs @ newline_indent l @ 125 # r) = Inr (JObj (ps @ xs), r)"
    and ne: "xs \<noteq> []" and ok: "json_ok (JObj xs)" and fresh: "\<forall>k \<in> set (map fst xs). map_of ps k = None"
    and nf: "pobj (Suc n) ps (obj_body l xs @ newline_indent l @ 125 # r) \<noteq> Inl OutOfFuel"
  shows "pobj (Suc n) ps (obj_body l xs @ newline_indent l @ 125 # r) = Inr (JObj (ps @ xs), r)"
proof -
  obtain k w xs' where xs: "xs = (k, w) # xs'" using ne by (metis list.exhaust surj_pair)
  define tl where "tl = (if xs' = [] then newline_indent l @ 125 # r
                         else 44 # newline_indent (Suc l) @ obj_body l xs' @ newline_indent l @ 125 # r)"
  have s: "obj_body l xs @ newline_indent l @ 125 # r =
      34 # concat (map esc_char k) @ 34 # 58 # 32 # dumps_at (Suc l) w @ tl"
    unfolding xs tl_def by (simp only: obj_body_Cons)
  have ve: "val_end tl" by (simp add: tl_def val_end_sep)
  have kv: "valid_str k" "json_ok w" using ok xs by simp_all
  have sk: "scan_str [] (concat (map esc_char k) @ 34 # 58 # 32 # dumps_at (Suc l) w @ tl) =
      Some (k, 58 # 32 # dumps_at (Suc l) w @ tl)"
    using scan_str_encode [OF kv(1)] by simp
  have eq: "pobj (Suc n) ps (obj_body l xs @ newline_indent l @ 125 # r) =
     (case pval n (dumps_at (Suc l) w @ tl) of Inl e \<Rightarrow> Inl e
      | Inr (v, r3) \<Rightarrow> (case skip_ws r3 of [] \<Rightarrow> Inl DecodeError
          | d' # r4 \<Rightarrow> if d' = 125 then Inr (JObj (dict_set k v ps), r4)
                      else if d' = 44 then pobj n (dict_set k v ps) (skip_ws r4) else Inl DecodeError))"
    unfolding s by (subst pobj.simps(3)) (simp add: sk del: pobj.simps pval.simps)
  have "pval n (dumps_at (Suc l) w @ tl) \<noteq> Inl OutOfFuel"
    using nf unfolding eq by (auto split: sum.splits)
  then have pv: "pval n (dumps_at (Suc l) w @ tl) = Inr (w, tl)"
    using IHv kv(2) ve by simp
  have ds: "dict_set k w ps = ps @ [(k, w)]"
    using fresh xs by (simp add: dict_set_absent)
  show ?thesis
  proof (cases "xs' = []")
    case True
    then show ?thesis unfolding eq pv using xs ds by (simp add: tl_def)
  next
    case False
    have rec: "pobj (Suc n) ps (obj_body l xs @ newline_indent l @ 125 # r) =
        pobj n (ps @ [(k, w)]) (obj_body l xs' @ newline_indent l @ 125 # r)"
      unfolding eq pv using False ds by (simp add: tl_def skip_ws_obj_body del: pobj.simps)
    have nf': "pobj n (ps @ [(k, w)]) (obj_body l xs' @ newline_indent l @ 125 # r) \<noteq> Inl OutOfFuel"
      using nf unfolding rec .
    have ok': "json_ok (JObj xs')" using ok xs by simp
    have fr': "\<forall>k' \<in> set (map fst xs'). map_of (ps @ [(k, w)]) k' = None"
      using ok fresh xs by (auto simp: map_add_def split: option.splits)
    from IHo [OF False ok' fr' nf'] xs show ?thesis unfolding rec by simp
  qed
qed

lemma parse_dumps:
  "(\<forall>l v r. json_ok v \<longrightarrow> val_end r \<longrightarrow> pval n (dumps_at l v @ r) \<noteq> Inl OutOfFuel \<longrightarrow>
      pval n (dumps_at l v @ r) = Inr (v, r)) \<and>
   (\<forall>l acc xs r. xs \<noteq> [] \<longrightarrow> (\<forall>x \<in> set xs. json_ok x) \<longrightarrow>
      parr n acc (arr_body l xs @ newline_indent l @ 93 # r) \<noteq> Inl OutOfFuel \<longrightarrow>
      parr n acc (arr_body l xs @ newline_indent l @ 93 # r) = Inr (JArr (acc @ xs), r)) \<and>
   (\<forall>l ps xs r. xs \<noteq> [] \<longrightarrow> json_ok (JObj xs) \<longrightarrow> (\<forall>k \<in> set (map fst xs). map_of ps k = None) \<longrightarrow>
      pobj n ps (obj_body l xs @ newline_indent l @ 125 # r) \<noteq> Inl OutOfFuel \<longrightarrow>
      pobj n ps (obj_body l xs @ newline_indent l @ 125 # r) = Inr (JObj (ps @ xs), r))"
proof (induction n)
  case 0
  then show ?case by simp
next
  case (Suc n)
  note IHv = Suc.IH [THEN conjunct1, rule_format]
    and IHa = Suc.IH [THEN conjunct2, THEN conjunct1, rule_format]
    and IHo = Suc.IH [THEN conjunct2, THEN conjunct2, rule_format]
  show ?case
    using pval_dumps_step [OF IHa IHo] parr_dumps_step [OF IHv IHa] pobj_dumps_step [OF IHv IHo]
    by blast
qed

lemmas pval_dumps = parse_dumps [THEN conjunct1, rule_format]

lemma json_dumps_Cons: "\<exists>c t. json_dumps v = c # t \<and> \<not> is_ws c \<and> c \<noteq> 65279"
  using dumps_at_Cons [of 0 v "[]"] by (auto simp: json_dumps_def is_ws_def)

subsection \<open>The printer writes ASCII only\<close>

lemma set_join_with: "set (join_with sep xs) \<subseteq> set sep \<union> \<Union> (set ` set xs)"
  by (induction sep xs rule: join_with.induct) auto

lemma hex_digit_ascii: "d < 16 \<Longrightarrow> hex_digit d < 128"
  by (simp add: hex_digit_def)

lemma dec_digits_ascii: "c \<in> set (dec_digits n) \<Longrightarrow> c < 128"
  using dec_digits_is_digit [of c n] by (simp add: is_digit_def)

lemma u_escape_ascii: "c \<in> set (u_escape n) \<Longrightarrow> c < 128"
  by (auto simp: u_escape_def hex4_def intro: hex_digit_ascii)

lemma esc_char_ascii: "c \<in> set (esc_char x) \<Longrightarrow> c < 128"
proof (cases "printable x")
  case True
  then show "c \<in> set (esc_char x) \<Longrightarrow> c < 128" by (simp add: esc_char_printable printable_def)
next
  case np: False
  show "c \<in> set (esc_char x) \<Longrightarrow> c < 128"
  proof (cases "short_esc x")
    case True
    then obtain e where "esc_char x = [92, e]" "simple_escape e = Some x" using esc_char_short by blast
    moreover then have "e < 128" by (auto simp: simple_escape_def split: if_splits)
    ultimately show "c \<in> set (esc_char x) \<Longrightarrow> c < 128" by auto
  next
    case ns: False
    show "c \<in> set (esc_char x) \<Longrightarrow> c < 128"
      using np ns by (cases "x < 65536") (auto simp: esc_char_bmp esc_char_astral dest: u_escape_ascii)
  qed
qed

lemma int_repr_ascii: "c \<in> set (int_repr i) \<Longrightarrow> c < 128"
  by (auto simp: int_repr_def dec_digits_ascii split: if_splits)

lemma encode_str_ascii: "c \<in> set (encode_str s) \<Longrightarrow> c < 128"
  by (auto simp: encode_str_def esc_char_ascii)

lemma float_repr_ascii: "c \<in> set (float_repr f) \<Longrightarrow> c < 128"
  by (cases f) (auto simp: float_repr_def int_repr_ascii split: if_splits)

lemma dumps_at_ascii: "c \<in> set (dumps_at l v) \<Longrightarrow> c < 128"
proof (induction l v rule: dumps_at.induct)
  case (6 l xs)
  show ?case
  proof (cases "xs = []")
    case False
    with "6.prems" have "c \<in> set (newline_indent (Suc l)) \<or> c \<in> set (newline_indent l) \<or> c = 91 \<or> c = 93 \<or> c = 44 \<or>
        (\<exists>x \<in> set xs. c \<in> set (dumps_at (Suc l) x))"
      using set_join_with [of "44 # newline_indent (Suc l)" "map (dumps_at (Suc l)) xs"] by auto
    with "6.IH" False show ?thesis by (auto simp: newline_indent_def)
  qed (use "6.prems" in auto)
next
  case (7 l ps)
  show ?case
  proof (cases "ps = []")
    case False
    with "7.prems" have "c \<in> set (newline_indent (Suc l)) \<or> c \<in> set (newline_indent l) \<or> c = 123 \<or> c = 125 \<or>
        c = 44 \<or> c = 58 \<or> c = 32 \<or>
        (\<exists>p \<in> set ps. c \<in> set (encode_str (fst p)) \<or> c \<in> set (dumps_at (Suc l) (snd p)))"
      using set_join_with [of "44 # newline_indent (Suc l)" "map (\<lambda>(k, v). encode_str k @ [58, 32] @ dumps_at (Suc l) v) ps"]
      by (auto simp: case_prod_beta)
    with "7.IH" False show ?thesis by (auto simp: newline_indent_def encode_str_ascii)
  qed (use "7.prems" in auto)
qed (auto simp: int_repr_ascii float_repr_ascii encode_str_ascii split: if_splits)

subsection \<open>Round trip and fuel\<close>

lemma pval_fuel_agree: "pval n s \<noteq> Inl OutOfFuel \<Longrightarrow> n \<le> m \<Longrightarrow> pval m s = pval n s"
proof (induction m)
  case 0
  then show ?case by simp
next
  case (Suc m)
  show ?case
  proof (cases "n = Suc m")
    case False
    with Suc.prems have "n \<le> m" by simp
    with Suc.IH Suc.prems(1) have ih: "pval m s = pval n s" by blast
    with Suc.prems(1) have "pval m s \<noteq> Inl OutOfFuel" by simp
    then have "pval (Suc m) s = pval m s" by (rule parse_fuel_mono [THEN conjunct1, rule_format])
    with ih show ?thesis by simp
  qed simp
qed

lemma json_roundtrip: "json_ok v \<Longrightarrow> json_loads (json_dumps v) = Some v"
proof -
  assume ok: "json_ok v"
  obtain c t where ct: "json_dumps v = c # t" "\<not> is_ws c" "c \<noteq> 65279"
    using json_dumps_Cons by blast
  let ?n = "Suc (2 * length (json_dumps v))"
  have sk: "skip_ws (json_dumps v) = json_dumps v" using ct by simp
  have "pval ?n (json_dumps v) \<noteq> Inl OutOfFuel"
    using pval_fuel_enough [of "json_dumps v" ?n] by simp
  then have "pval ?n (dumps_at 0 v @ []) = Inr (v, [])"
    using pval_dumps [OF ok] by (simp add: json_dumps_def val_end_def)
  then show ?thesis using ct sk by (simp add: json_loads_def json_dumps_def)
qed

lemma json_fuel_suffices:
  "2 * length s < n \<Longrightarrow> pval n s \<noteq> Inl OutOfFuel \<and> pval n s = pval (Suc (2 * length s)) s"
proof -
  assume n: "2 * length s < n"
  have b: "pval (Suc (2 * length s)) s \<noteq> Inl OutOfFuel" by (rule pval_fuel_enough) simp
  have "pval n s = pval (Suc (2 * length s)) s" using n by (intro pval_fuel_agree [OF b]) simp
  with b show ?thesis by simp
qed


end
