(* ===== verification/Persistence.thy ===== *)
theory Persistence
  imports Tracker Json_Roundtrip
begin

text \<open>
  What \<^verbatim>\<open>save_data\<close> writes, \<^verbatim>\<open>load_data\<close> reads back: the composition of the
  theory \<open>Tracker\<close> (the file system and the two persistence methods of
  \<^verbatim>\<open>src/habit_tracker.py\<close>) with the round trip of \<open>Json_Roundtrip\<close>. A tracker whose
  file holds the serialisation of its data (\<open>synced\<close>, which every successful mutator
  establishes) is rebuilt exactly by \<^verbatim>\<open>HabitTracker(filename)\<close>, provided its strings are
  valid code point sequences; the fuel given to the parser never decides what
  \<^verbatim>\<open>load_data\<close> returns; and a name holding a surrogate pair as two code points is
  renamed by a restart (\<open>restart_merges_surrogates\<close>).
\<close>

definition store_valid :: "hstore \<Rightarrow> bool" where
  "store_valid hs \<longleftrightarrow> (\<forall>(k, h) \<in> set hs. valid_str k \<and> valid_str (description h) \<and> valid_str (frequency h))"

text \<open>The surrogate pair that \<^verbatim>\<open>encode_basestring_ascii\<close> writes for a code point
  above U+FFFF.\<close>

definition hi_sur :: "nat \<Rightarrow> nat" where "hi_sur c = 55296 + (c - 65536) div 1024 mod 1024"
definition lo_sur :: "nat \<Rightarrow> nat" where "lo_sur c = 56320 + (c - 65536) mod 1024"

section \<open>Lemmas\<close>

lemma json_ok_store_json: "wf_store hs \<Longrightarrow> store_valid hs \<Longrightarrow> json_ok (store_json hs)"
  by (auto simp: store_json_def habit_json_def wf_store_def store_valid_def comp_def case_prod_beta
      key_count_def key_description_def key_frequency_def valid_str_def is_high_def)

lemma load_data_synced: "synced s \<Longrightarrow> json_ok (habits s) \<Longrightarrow> load_data (filename s) (disk s) = Inr (habits s)"
  by (simp add: synced_def load_data_def json_roundtrip)

lemma tracker_init_synced: "synced s \<Longrightarrow> json_ok (habits s) \<Longrightarrow> tracker_init (filename s) (disk s) = Inr s"
  by (simp add: tracker_init_def load_data_synced)

lemma synced_persist: "synced (persist hs s)"
  by (simp add: synced_def persist_def)

lemma esc_char_sur: "65536 \<le> c \<Longrightarrow> esc_char (hi_sur c) @ esc_char (lo_sur c) = esc_char c"
proof -
  assume c: "65536 \<le> c"
  have "(c - 65536) div 1024 mod 1024 < 1024" "(c - 65536) mod 1024 < 1024" by simp_all
  then have "hi_sur c < 65536" "lo_sur c < 65536" "\<not> printable (hi_sur c)" "\<not> printable (lo_sur c)"
    "\<not> short_esc (hi_sur c)" "\<not> short_esc (lo_sur c)"
    by (simp_all add: hi_sur_def lo_sur_def printable_def short_esc_def)
  with c show ?thesis by (simp add: esc_char_bmp esc_char_astral hi_sur_def lo_sur_def)
qed

lemma encode_str_sur:
  "65536 \<le> c \<Longrightarrow> encode_str (xs @ hi_sur c # lo_sur c # ys) = encode_str (xs @ c # ys)"
  by (simp add: encode_str_def esc_char_sur [symmetric])

lemma dumps_rename_last:
  "encode_str n = encode_str n' \<Longrightarrow> dumps_at l (JObj (ps @ [(n, v)])) = dumps_at l (JObj (ps @ [(n', v)]))"
  by simp

section \<open>Properties\<close>

text \<open>(C12) Restart: when the file holds the serialisation of the data in memory, as after
  every successful mutator, and the strings are valid, a new \<^verbatim>\<open>HabitTracker\<close> on the same
  file has the same file name, data and file system.\<close>

theorem restart_synced: "synced s \<Longrightarrow> json_ok (habits s) \<Longrightarrow> tracker_init (filename s) (disk s) = Inr s"
  by (rule tracker_init_synced)

theorem restart_synced_witness:
  "synced \<lparr>filename = ustr ''habits.json'', habits = store_json [(ustr ''Exercise'', new_habit (ustr ''Run'') (ustr ''daily''))],
           disk = [ustr ''habits.json'' \<mapsto> Text (json_dumps (store_json [(ustr ''Exercise'', new_habit (ustr ''Run'') (ustr ''daily''))]))]\<rparr> \<and>
   json_ok (store_json [(ustr ''Exercise'', new_habit (ustr ''Run'') (ustr ''daily''))]) \<and>
   tracker_init (ustr ''habits.json'') [ustr ''habits.json'' \<mapsto> Text (json_dumps (store_json [(ustr ''Exercise'', new_habit (ustr ''Run'') (ustr ''daily''))]))] =
   Inr \<lparr>filename = ustr ''habits.json'', habits = store_json [(ustr ''Exercise'', new_habit (ustr ''Run'') (ustr ''daily''))],
        disk = [ustr ''habits.json'' \<mapsto> Text (json_dumps (store_json [(ustr ''Exercise'', new_habit (ustr ''Run'') (ustr ''daily''))]))]\<rparr>"
proof -
  let ?s = "\<lparr>filename = ustr ''habits.json'', habits = store_json [(ustr ''Exercise'', new_habit (ustr ''Run'') (ustr ''daily''))],
           disk = [ustr ''habits.json'' \<mapsto> Text (json_dumps (store_json [(ustr ''Exercise'', new_habit (ustr ''Run'') (ustr ''daily''))]))]\<rparr>"
  have h1: "synced ?s" by (simp add: synced_def)
  have h2: "json_ok (habits ?s)"
    by (simp add: store_json_def habit_json_def new_habit_def valid_str_def is_high_def
        key_count_def key_description_def key_frequency_def)
  from restart_synced [OF h1 h2] h1 h2 show ?thesis by simp
qed

text \<open>(C11) The spec's round trip (section 8): after the typed store \<open>hs\<close> has been saved
  (\<open>persist\<close>, what every successful mutator does by \<open>tracker_refines\<close>), loading the file
  gives back identical names, descriptions, frequencies and counts.\<close>

theorem restart_after_persist:
  "wf_store hs \<Longrightarrow> store_valid hs \<Longrightarrow> tracker_init (filename s) (disk (persist hs s)) = Inr (persist hs s)"
proof -
  assume "wf_store hs" "store_valid hs"
  then have "json_ok (habits (persist hs s))" by (simp add: persist_def json_ok_store_json)
  with synced_persist [of hs s] have "tracker_init (filename (persist hs s)) (disk (persist hs s)) = Inr (persist hs s)"
    by (rule tracker_init_synced)
  then show ?thesis by (simp add: persist_def)
qed

theorem restart_after_persist_witness:
  "wf_store [(ustr ''Exercise'', new_habit [] (ustr ''daily''))] \<and> store_valid [(ustr ''Exercise'', new_habit [] (ustr ''daily''))] \<and>
   tracker_init (ustr ''habits.json'') (disk (persist [(ustr ''Exercise'', new_habit [] (ustr ''daily''))]
     \<lparr>filename = ustr ''habits.json'', habits = JObj [], disk = Map.empty\<rparr>)) =
   Inr (persist [(ustr ''Exercise'', new_habit [] (ustr ''daily''))] \<lparr>filename = ustr ''habits.json'', habits = JObj [], disk = Map.empty\<rparr>)"
proof -
  have h1: "wf_store [(ustr ''Exercise'', new_habit [] (ustr ''daily''))]" by (simp add: wf_store_def new_habit_def)
  have h2: "store_valid [(ustr ''Exercise'', new_habit [] (ustr ''daily''))]"
    by (simp add: store_valid_def new_habit_def valid_str_def is_high_def)
  from restart_after_persist [OF h1 h2, of "\<lparr>filename = ustr ''habits.json'', habits = JObj [], disk = Map.empty\<rparr>"] h1 h2
  show ?thesis by simp
qed

text \<open>(C30) The parser's fuel is no limit: for a file of \<open>t\<close>, any fuel above \<open>2 * length t\<close>
  never runs out, so \<^verbatim>\<open>load_data\<close> yields \<^verbatim>\<open>{}\<close> exactly when the text is no JSON
  document (a byte order mark, a syntax error or trailing data) and the parsed value
  otherwise.\<close>

theorem load_data_fuel:
  "d fn = Some (Text t) \<Longrightarrow> 2 * length t < n \<Longrightarrow>
   pval n (skip_ws t) \<noteq> Inl OutOfFuel \<and>
   load_data fn d = (if t \<noteq> [] \<and> hd t = 65279 then Inr (JObj [])
                     else case pval n (skip_ws t) of
                       Inr (v, r) \<Rightarrow> if skip_ws r = [] then Inr v else Inr (JObj [])
                     | Inl _ \<Rightarrow> Inr (JObj []))"
proof -
  assume d: "d fn = Some (Text t)" and n: "2 * length t < n"
  have n': "2 * length (skip_ws t) < n" using n length_skip_ws [of t] by linarith
  have n'': "2 * length (skip_ws t) < Suc (2 * length t)" using length_skip_ws [of t] by linarith
  have "pval n (skip_ws t) = pval (Suc (2 * length t)) (skip_ws t)"
    using json_fuel_suffices [OF n'] json_fuel_suffices [OF n'']
      pval_fuel_enough [of "skip_ws t" "Suc (2 * length (skip_ws t))"] by simp
  moreover have "pval n (skip_ws t) \<noteq> Inl OutOfFuel" using json_fuel_suffices [OF n'] by blast
  ultimately show ?thesis using d
    by (auto simp: load_data_def json_loads_def split: sum.splits prod.splits)
qed

theorem load_data_fuel_witness:
  "[ustr ''habits.json'' \<mapsto> Text (ustr ''{}'')] (ustr ''habits.json'') = Some (Text (ustr ''{}'')) \<and>
   2 * length (ustr ''{}'') < (10::nat) \<and>
   pval 10 (skip_ws (ustr ''{}'')) \<noteq> Inl OutOfFuel \<and>
   load_data (ustr ''habits.json'') [ustr ''habits.json'' \<mapsto> Text (ustr ''{}'')] =
     (if ustr ''{}'' \<noteq> [] \<and> hd (ustr ''{}'') = 65279 then Inr (JObj [])
      else case pval 10 (skip_ws (ustr ''{}'')) of
        Inr (v, r) \<Rightarrow> if skip_ws r = [] then Inr v else Inr (JObj [])
      | Inl _ \<Rightarrow> Inr (JObj []))"
proof -
  have h1: "[ustr ''habits.json'' \<mapsto> Text (ustr ''{}'')] (ustr ''habits.json'') = Some (Text (ustr ''{}''))" by simp
  have h2: "2 * length (ustr ''{}'') < (10::nat)" by simp
  from load_data_fuel [of "[ustr ''habits.json'' \<mapsto> Text (ustr ''{}'')]" "ustr ''habits.json''"
      "ustr ''{}''" 10, OF h1 h2] h1 h2
  show ?thesis by blast
qed

text \<open>(C31) A gap in the spec's round trip: \<^verbatim>\<open>add_habit\<close> with a name that holds the
  two lone surrogates of a code point above U+FFFF saves them as the same two
  \<^verbatim>\<open>\u\<close> escapes as that code point, so a restart reads the name back with the one
  code point in their place, and the habit is no longer found under the name it was
  added with. This holds in any store of valid names, at any position in the name.\<close>

theorem restart_merges_surrogates:
  assumes c: "65536 \<le> c" and v: "valid_str (xs @ c # ys)" "valid_str dsc" "valid_str f"
    and s: "wf_store hs" "store_valid hs" "habits s = store_json hs" "writable s"
    and new: "map_of hs (xs @ hi_sur c # lo_sur c # ys) = None" "map_of hs (xs @ c # ys) = None"
    and add: "tracker_add_habit (xs @ hi_sur c # lo_sur c # ys) dsc f s = (r, s')"
  shows "tracker_init (filename s) (disk s') = Inr (s'\<lparr>habits := store_json (hs @ [(xs @ c # ys, new_habit dsc f)])\<rparr>)"
proof -
  let ?n = "xs @ hi_sur c # lo_sur c # ys" and ?m = "xs @ c # ys"
  let ?hs' = "hs @ [(?m, new_habit dsc f)]"
  have call: "tracker_call (Add ?n dsc f) s = tracker_spec (Add ?n dsc f) hs s"
    by (rule tracker_call_store [OF s(1,3,4)])
  have "add_habit ?n dsc f hs = Inr (hs @ [(?n, new_habit dsc f)])"
    using new(1) by (simp add: add_habit_Inr)
  with call add have s': "s' = persist (hs @ [(?n, new_habit dsc f)]) s" by simp
  have dump: "json_dumps (store_json (hs @ [(?n, new_habit dsc f)])) = json_dumps (store_json ?hs')"
  proof -
    have e: "store_json (hs @ [(k, h)]) = JObj (map (\<lambda>(k, h). (k, habit_json h)) hs @ [(k, habit_json h)])" for k h
      by (simp add: store_json_def)
    show ?thesis unfolding json_dumps_def e by (rule dumps_rename_last [OF encode_str_sur [OF c]])
  qed
  have "wf_store ?hs'" using s(1) new(2) by (simp add: wf_store_def new_habit_def map_of_eq_None_iff)
  moreover have "store_valid ?hs'" using s(2) v by (simp add: store_valid_def new_habit_def)
  ultimately have "json_ok (store_json ?hs')" by (rule json_ok_store_json)
  then have "json_loads (json_dumps (store_json ?hs')) = Some (store_json ?hs')" by (rule json_roundtrip)
  then show ?thesis using s' dump
    by (simp add: tracker_init_def load_data_def persist_def)
qed

theorem restart_merges_surrogates_witness:
  "65536 \<le> (65536::nat) \<and> valid_str ([] @ 65536 # []) \<and> valid_str [] \<and> valid_str (ustr ''daily'') \<and>
   wf_store [] \<and> store_valid [] \<and>
   habits \<lparr>filename = ustr ''habits.json'', habits = store_json [], disk = Map.empty\<rparr> = store_json [] \<and>
   writable \<lparr>filename = ustr ''habits.json'', habits = store_json [], disk = Map.empty\<rparr> \<and>
   tracker_init (ustr ''habits.json'')
     (disk (persist [([55296, 56320], new_habit [] (ustr ''daily''))]
             \<lparr>filename = ustr ''habits.json'', habits = store_json [], disk = Map.empty\<rparr>)) =
   Inr ((persist [([55296, 56320], new_habit [] (ustr ''daily''))]
          \<lparr>filename = ustr ''habits.json'', habits = store_json [], disk = Map.empty\<rparr>)
        \<lparr>habits := store_json [([65536], new_habit [] (ustr ''daily''))]\<rparr>)"
proof -
  let ?s = "\<lparr>filename = ustr ''habits.json'', habits = store_json [], disk = Map.empty\<rparr>"
  have c: "65536 \<le> (65536::nat)" by simp
  have v: "valid_str ([] @ 65536 # [])" "valid_str []" "valid_str (ustr ''daily'')"
    by (simp_all add: valid_str_def is_high_def)
  have s: "wf_store []" "store_valid []" "habits ?s = store_json []" "writable ?s"
    by (simp_all add: store_valid_def writable_def)
  have n: "map_of [] ([] @ hi_sur 65536 # lo_sur 65536 # []) = (None :: habit option)"
    "map_of [] ([] @ 65536 # []) = (None :: habit option)" by simp_all
  have hl: "hi_sur 65536 = 55296" "lo_sur 65536 = 56320" by (simp_all add: hi_sur_def lo_sur_def)
  have add: "tracker_add_habit ([] @ hi_sur 65536 # lo_sur 65536 # []) [] (ustr ''daily'') ?s =
      (Inr JNull, persist [([55296, 56320], new_habit [] (ustr ''daily''))] ?s)"
    unfolding hl by (simp add: tracker_add_habit_def py_contains_def py_setitem_def save_data_def persist_def
      store_json_def new_record_json)
  from restart_merges_surrogates [OF c v s n add] c v s show ?thesis by simp
qed

text \<open>(C34) \<^verbatim>\<open>json.dump\<close> keeps its default \<^verbatim>\<open>ensure_ascii=True\<close>: every file that
  \<^verbatim>\<open>save_data\<close> writes holds code points below 128 only, whatever the names and
  descriptions hold, so the file's text encoding never matters.\<close>

theorem save_data_ascii:
  "save_data s = (Inr u, s') \<Longrightarrow> disk s' (filename s') = Some (Text t) \<Longrightarrow> \<forall>c \<in> set t. c < 128"
  by (auto simp: save_data_def json_dumps_def split: option.splits fentry.splits dest: dumps_at_ascii)

theorem save_data_ascii_witness:
  "save_data \<lparr>filename = ustr ''habits.json'', habits = JObj [([233], JInt 1)], disk = Map.empty\<rparr> =
     (Inr (), \<lparr>filename = ustr ''habits.json'', habits = JObj [([233], JInt 1)],
              disk = [ustr ''habits.json'' \<mapsto> Text (json_dumps (JObj [([233], JInt 1)]))]\<rparr>) \<and>
   [ustr ''habits.json'' \<mapsto> Text (json_dumps (JObj [([233], JInt 1)]))] (ustr ''habits.json'') =
     Some (Text (json_dumps (JObj [([233], JInt 1)]))) \<and>
   list_all (\<lambda>c. c < 128) (json_dumps (JObj [([233], JInt 1)]))"
proof -
  have h1: "save_data \<lparr>filename = ustr ''habits.json'', habits = JObj [([233], JInt 1)], disk = Map.empty\<rparr> =
     (Inr (), \<lparr>filename = ustr ''habits.json'', habits = JObj [([233], JInt 1)],
              disk = [ustr ''habits.json'' \<mapsto> Text (json_dumps (JObj [([233], JInt 1)]))]\<rparr>)"
    by (simp add: save_data_def)
  have h2: "disk \<lparr>filename = ustr ''habits.json'', habits = JObj [([233], JInt 1)],
              disk = [ustr ''habits.json'' \<mapsto> Text (json_dumps (JObj [([233], JInt 1)]))]\<rparr>
     (filename \<lparr>filename = ustr ''habits.json'', habits = JObj [([233], JInt 1)],
              disk = [ustr ''habits.json'' \<mapsto> Text (json_dumps (JObj [([233], JInt 1)]))]\<rparr>) =
     Some (Text (json_dumps (JObj [([233], JInt 1)])))"
    by simp
  from save_data_ascii [OF h1 h2] h1 h2 show ?thesis by (simp add: list_all_iff)
qed

end
