(* ===== verification/Session.thy ===== *)
theory Session
  imports Effects Persistence
begin

text \<open>
  A program that holds a \<^verbatim>\<open>HabitTracker\<close> (\<^verbatim>\<open>src/habit_tracker.py\<close>) and calls its
  methods one after another, catching whatever they raise (as the tests do with
  \<^verbatim>\<open>assertRaises\<close>), and that may be started again on the same file at any point: the
  reachable states form the inductive predicate \<open>session\<close> over the start, the method
  calls and the restarts. The inputs are Python strings of valid code points
  (\<open>op_valid\<close>), as \<^verbatim>\<open>input()\<close> returns for text decoded as UTF-8. Rule induction
  shows the invariant \<open>session_inv\<close>: the data keeps the shape the tracker writes,
  no other file changes, and the file holds either what it held at the start or the
  serialisation of such data; on a writable file every reachable state has its file in
  step with its data once it has saved; and a restart from such a state rebuilds it.
\<close>

section \<open>Sessions\<close>

fun hop_strs :: "hop \<Rightarrow> pystr list" where
  "hop_strs (Add n d f) = [n, d, f]"
| "hop_strs (Complete n) = [n]"
| "hop_strs (View n) = [n]"
| "hop_strs (Remove n) = [n]"
| "hop_strs Reset = []"

definition op_valid :: "hop \<Rightarrow> bool" where
  "op_valid op \<longleftrightarrow> list_all valid_str (hop_strs op)"

inductive session :: "pystr \<Rightarrow> disk \<Rightarrow> sys \<Rightarrow> bool" for fn :: pystr and d :: disk where
  start: "tracker_init fn d = Inr s \<Longrightarrow> session fn d s"
| call: "session fn d s \<Longrightarrow> op_valid op \<Longrightarrow> tracker_call op s = (r, s') \<Longrightarrow> session fn d s'"
| restart: "session fn d s \<Longrightarrow> tracker_init fn (disk s) = Inr s' \<Longrightarrow> session fn d s'"

definition good_store :: "jval \<Rightarrow> bool" where
  "good_store v \<longleftrightarrow> is_store v \<and> json_ok v"

definition start_ok :: "pystr \<Rightarrow> disk \<Rightarrow> bool" where
  "start_ok fn d \<longleftrightarrow> (case load_data fn d of Inr v \<Rightarrow> good_store v | Inl _ \<Rightarrow> True)"

definition session_inv :: "pystr \<Rightarrow> disk \<Rightarrow> sys \<Rightarrow> bool" where
  "session_inv fn d s \<longleftrightarrow>
     filename s = fn \<and> (disk s)(fn := None) = d(fn := None) \<and> good_store (habits s) \<and>
     (disk s fn = d fn \<or> (\<exists>v. good_store v \<and> disk s fn = Some (Text (json_dumps v))))"

text \<open>A concrete session: a tracker on a fresh file system adds one habit.\<close>

abbreviation gym_sys :: sys where
  "gym_sys \<equiv> \<lparr>filename = ustr ''habits.json'', habits = JObj [(ustr ''Gym'', new_record [] (ustr ''daily''))],
     disk = [ustr ''habits.json'' \<mapsto> Text (json_dumps (JObj [(ustr ''Gym'', new_record [] (ustr ''daily''))]))]\<rparr>"

section \<open>Lemmas\<close>

lemma tracker_call_hstep:
  "wf_store hs \<Longrightarrow> habits s = store_json hs \<Longrightarrow> tracker_call op s = (r, s') \<Longrightarrow>
   habits s' = habits s \<or> (\<exists>hs'. hstep op hs = Inr hs' \<and> habits s' = store_json hs')"
proof -
  assume wf: "wf_store hs" and h: "habits s = store_json hs" and call: "tracker_call op s = (r, s')"
  show ?thesis
  proof (cases "writable s")
    case True
    with call h show ?thesis using tracker_call_store [OF wf h True]
      by (cases op) (auto simp: persist_def split: sum.splits)
  next
    case False
    with call h show ?thesis using tracker_call_noaccess [OF wf h False, of op]
      by (cases op) (auto simp: persist_def split: sum.splits)
  qed
qed

lemma store_valid_json: "json_ok (store_json hs) \<Longrightarrow> store_valid hs"
  by (auto simp: store_valid_def store_json_def habit_json_def)

lemma good_store_iff: "good_store v \<longleftrightarrow> (\<exists>hs. wf_store hs \<and> store_valid hs \<and> v = store_json hs)"
  by (auto simp: good_store_def is_store_iff json_ok_store_json store_valid_json)

lemma hstep_fields:
  "distinct (map fst hs) \<Longrightarrow> hstep op hs = Inr hs' \<Longrightarrow> (k, h) \<in> set hs' \<Longrightarrow>
   (\<exists>h0. (k, h0) \<in> set hs \<and> description h = description h0 \<and> frequency h = frequency h0) \<or>
   (\<exists>d f. op = Add k d f \<and> h = new_habit d f)"
proof (cases op)
  case (Complete n)
  assume "distinct (map fst hs)" "hstep op hs = Inr hs'" "(k, h) \<in> set hs'"
  with Complete show ?thesis using set_dict_set_subset
    by (fastforce simp: mark_completed_Inr dest: map_of_SomeD)
next
  case (Remove n)
  assume "distinct (map fst hs)" "hstep op hs = Inr hs'" "(k, h) \<in> set hs'"
  with Remove show ?thesis using set_dict_del_subset by (fastforce simp: remove_habit_Inr)
next
  case Reset
  assume "distinct (map fst hs)" "hstep op hs = Inr hs'" "(k, h) \<in> set hs'"
  with Reset show ?thesis
    by (force simp: reset_progress_def reset_loop_map case_prod_beta' reset_count_def)
qed (auto simp: hop_results)

lemma hstep_store_valid:
  "wf_store hs \<Longrightarrow> store_valid hs \<Longrightarrow> op_valid op \<Longrightarrow> hstep op hs = Inr hs' \<Longrightarrow> store_valid hs'"
  unfolding store_valid_def
proof (clarify)
  fix k h
  assume wf: "wf_store hs" and v: "\<forall>(k, h) \<in> set hs. valid_str k \<and> valid_str (description h) \<and> valid_str (frequency h)"
    and op: "op_valid op" and st: "hstep op hs = Inr hs'" and kh: "(k, h) \<in> set hs'"
  from wf have "distinct (map fst hs)" by (simp add: wf_store_def)
  from hstep_fields [OF this st kh] v op
  show "valid_str k \<and> valid_str (description h) \<and> valid_str (frequency h)"
    by (auto simp: op_valid_def new_habit_def)
qed

lemma load_data_cong: "d fn = d' fn \<Longrightarrow> load_data fn d = load_data fn d'"
  by (simp add: load_data_def)

lemma good_store_loads: "good_store v \<Longrightarrow> load_data fn (d(fn \<mapsto> Text (json_dumps v))) = Inr v"
  by (simp add: load_data_def good_store_def json_roundtrip)

lemma session_inv_start: "start_ok fn d \<Longrightarrow> tracker_init fn d = Inr s \<Longrightarrow> session_inv fn d s"
  by (auto simp: session_inv_def start_ok_def tracker_init_def split: sum.splits)

lemma session_inv_call:
  assumes inv: "session_inv fn d s" and op: "op_valid op" and call: "tracker_call op s = (r, s')"
  shows "session_inv fn d s'"
proof -
  from inv obtain hs where wf: "wf_store hs" and v: "store_valid hs" and h: "habits s = store_json hs"
    by (auto simp: session_inv_def good_store_iff)
  have "good_store (habits s')"
  proof (cases "habits s' = habits s")
    case True
    with inv show ?thesis by (simp add: session_inv_def)
  next
    case False
    with tracker_call_hstep [OF wf h call] obtain hs' where st: "hstep op hs = Inr hs'"
      and h': "habits s' = store_json hs'" by blast
    from hstep_wf [OF wf st] hstep_store_valid [OF wf v op st] h' show ?thesis
      by (auto simp: good_store_iff)
  qed
  with tracker_call_disk [OF call] inv show ?thesis by (auto simp: session_inv_def)
qed

lemma session_inv_restart:
  assumes ok: "start_ok fn d" and inv: "session_inv fn d s" and init: "tracker_init fn (disk s) = Inr s'"
  shows "session_inv fn d s'"
proof -
  from init obtain v where ld: "load_data fn (disk s) = Inr v" and s': "s' = \<lparr>filename = fn, habits = v, disk = disk s\<rparr>"
    by (auto simp: tracker_init_def split: sum.splits)
  have "good_store v"
  proof (cases "disk s fn = d fn")
    case True
    with ld ok show ?thesis by (simp add: start_ok_def load_data_cong [of d fn "disk s"])
  next
    case False
    with inv obtain v0 where "good_store v0" "disk s fn = Some (Text (json_dumps v0))"
      by (auto simp: session_inv_def)
    moreover from this(2) have "disk s = (disk s)(fn \<mapsto> Text (json_dumps v0))" by auto
    ultimately show ?thesis using ld good_store_loads [of v0 fn "disk s"] by simp
  qed
  with inv s' show ?thesis by (auto simp: session_inv_def)
qed

lemma session_inv_reach: "start_ok fn d \<Longrightarrow> session fn d s \<Longrightarrow> session_inv fn d s"
proof -
  assume ok: "start_ok fn d"
  assume "session fn d s"
  then show "session_inv fn d s"
  proof (induction rule: session.induct)
    case (start s)
    with ok show ?case by (rule session_inv_start)
  next
    case (call s op r s')
    then show ?case by (blast intro: session_inv_call)
  next
    case (restart s s')
    with ok show ?case by (blast intro: session_inv_restart)
  qed
qed

lemma session_inv_writable: "session_inv fn d s \<Longrightarrow> d fn \<noteq> Some NoAccess \<Longrightarrow> writable s"
  by (auto simp: session_inv_def writable_def)

lemma session_inv_json_ok: "session_inv fn d s \<Longrightarrow> json_ok (habits s)"
  by (simp add: session_inv_def good_store_def)

lemma tracker_spec_state: "tracker_spec op hs s = (r, s') \<Longrightarrow> s' = s \<or> (\<exists>hs'. s' = persist hs' s)"
  by (cases op) (auto split: sum.splits)

lemma session_synced_reach:
  assumes ok: "start_ok fn d" and w: "d fn \<noteq> Some NoAccess"
  shows "session fn d s \<Longrightarrow> synced s \<or> disk s = d"
proof (induction rule: session.induct)
  case (start s)
  then show ?case by (auto simp: tracker_init_def split: sum.splits)
next
  case (call s op r s')
  have inv: "session_inv fn d s" using ok call.hyps(1) by (rule session_inv_reach)
  then obtain hs where wf: "wf_store hs" and h: "habits s = store_json hs"
    by (auto simp: session_inv_def good_store_def is_store_iff)
  from call.hyps(3) tracker_call_store [OF wf h session_inv_writable [OF inv w]]
  have "tracker_spec op hs s = (r, s')" by simp
  then have "s' = s \<or> (\<exists>hs'. s' = persist hs' s)" by (rule tracker_spec_state)
  with call.IH show ?case by (auto simp: synced_persist)
next
  case (restart s s')
  have inv: "session_inv fn d s" using ok restart.hyps(1) by (rule session_inv_reach)
  show ?case
  proof (cases "synced s")
    case True
    with tracker_init_synced [OF True session_inv_json_ok [OF inv]] inv restart.hyps(2)
    have "s' = s" by (simp add: session_inv_def)
    with True show ?thesis by simp
  next
    case False
    with restart.IH restart.hyps(2) show ?thesis by (auto simp: tracker_init_def split: sum.splits)
  qed
qed

lemma start_ok_empty: "start_ok fn Map.empty"
  by (simp add: start_ok_def load_data_def good_store_def is_store_def)

lemma session_gym: "session (ustr ''habits.json'') Map.empty gym_sys"
proof (rule session.call)
  show "session (ustr ''habits.json'') Map.empty \<lparr>filename = ustr ''habits.json'', habits = JObj [], disk = Map.empty\<rparr>"
    by (rule session.start) (simp add: tracker_init_def load_data_def)
  show "op_valid (Add (ustr ''Gym'') [] (ustr ''daily''))"
    by (simp add: op_valid_def valid_str_def is_high_def)
  show "tracker_call (Add (ustr ''Gym'') [] (ustr ''daily''))
          \<lparr>filename = ustr ''habits.json'', habits = JObj [], disk = Map.empty\<rparr> = (Inr JNull, gym_sys)"
    by (simp add: tracker_add_habit_def py_contains_def py_setitem_def save_data_def)
qed

section \<open>Properties\<close>

text \<open>(C7) Invariant of every session started on a file that is absent, not JSON, or holds
  data of the tracker's shape with valid strings: the file name is kept, no other file
  changes, the data in memory has the shape the tracker writes and valid strings, and the
  file holds either its initial content or the serialisation of such data.\<close>

theorem session_invariant: "start_ok fn d \<Longrightarrow> session fn d s \<Longrightarrow> session_inv fn d s"
  by (rule session_inv_reach)

theorem session_invariant_witness:
  "start_ok (ustr ''habits.json'') Map.empty \<and> session (ustr ''habits.json'') Map.empty gym_sys \<and>
   session_inv (ustr ''habits.json'') Map.empty gym_sys"
  using session_invariant [OF start_ok_empty session_gym] start_ok_empty session_gym by blast

text \<open>(C8) In such a session on a file the process may write, every reachable state either
  has its file in step with its data (\<open>synced\<close>) or has not yet changed the file
  system at all: a caught ValueError never leaves memory and file apart.\<close>

theorem session_synced: "start_ok fn d \<Longrightarrow> d fn \<noteq> Some NoAccess \<Longrightarrow> session fn d s \<Longrightarrow> synced s \<or> disk s = d"
  by (rule session_synced_reach)

theorem session_synced_witness:
  "start_ok (ustr ''habits.json'') Map.empty \<and> Map.empty (ustr ''habits.json'') \<noteq> Some NoAccess \<and>
   session (ustr ''habits.json'') Map.empty gym_sys \<and> (synced gym_sys \<or> disk gym_sys = Map.empty)"
  using session_synced [OF start_ok_empty _ session_gym] start_ok_empty session_gym by simp

text \<open>(C13) Round trip across runs: in such a session, a state whose file is in step with its
  data is rebuilt exactly by a new \<^verbatim>\<open>HabitTracker\<close> on the same file.\<close>

theorem session_restart: "start_ok fn d \<Longrightarrow> session fn d s \<Longrightarrow> synced s \<Longrightarrow> tracker_init fn (disk s) = Inr s"
proof -
  assume "start_ok fn d" "session fn d s" "synced s"
  then have inv: "session_inv fn d s" by (simp add: session_inv_reach)
  have "tracker_init (filename s) (disk s) = Inr s"
    using \<open>synced s\<close> session_inv_json_ok [OF inv] by (rule tracker_init_synced)
  with inv show ?thesis by (simp add: session_inv_def)
qed

theorem session_restart_witness:
  "start_ok (ustr ''habits.json'') Map.empty \<and> session (ustr ''habits.json'') Map.empty gym_sys \<and> synced gym_sys \<and>
   tracker_init (ustr ''habits.json'') (disk gym_sys) = Inr gym_sys"
proof -
  have h: "synced gym_sys" by (simp add: synced_def)
  from session_restart [OF start_ok_empty session_gym h] start_ok_empty session_gym h show ?thesis by blast
qed

end
