(* ===== verification/Menu.thy ===== *)
theory Menu
  imports Tracker
begin

text \<open>
  The interactive loop \<^verbatim>\<open>main()\<close> of \<^verbatim>\<open>src/habit_tracker.py\<close>. Standard input is the
  list of lines the user types (without their newlines); standard output is a list of
  pieces: literal text, and the value a \<^verbatim>\<open>{progress}\<close> field of an f-string renders
  with \<^verbatim>\<open>str()\<close>. One iteration prints the menu, reads a choice, reads the arguments
  the choice asks for, calls the tracker method and prints its message; \<^verbatim>\<open>6\<close> ends the
  loop and any other choice prints a complaint. Nothing in \<^verbatim>\<open>main\<close> catches an
  exception: a ValueError of a method, a PermissionError of a save, and the EOFError
  \<^verbatim>\<open>input()\<close> raises at the end of the input all end the program. Each iteration
  consumes at least the choice line, so the loop is a \<open>function\<close> whose termination
  is proved by the length of the input.
\<close>

section \<open>Input and output\<close>

datatype out = Out pystr | OutValue jval

datatype mexc = PyExc exc | EOFError

definition menu_text :: pystr where
  "menu_text = [10] @ ustr ''Habit Tracker'' @ [10] @ ustr ''1. Add Habit'' @ [10] @
     ustr ''2. Mark Habit as Completed'' @ [10] @ ustr ''3. View Progress'' @ [10] @
     ustr ''4. Remove Habit'' @ [10] @ ustr ''5. Reset Progress'' @ [10] @ ustr ''6. Exit'' @ [10]"

definition prompt_choice :: pystr where "prompt_choice = ustr ''Choose an option: ''"
definition prompt_name :: pystr where "prompt_name = ustr ''Enter habit name: ''"
definition prompt_desc :: pystr where "prompt_desc = ustr ''Enter description (optional): ''"
definition prompt_freq :: pystr where "prompt_freq = ustr ''Enter frequency (daily/weekly): ''"

text \<open>\<^verbatim>\<open>x = input(p)\<close> for each prompt \<open>p\<close> in turn: every prompt is written before its
  line is read, and at the end of the input the prompt is written and EOFError raised
  (\<open>None\<close>).\<close>

definition read_lines :: "pystr list \<Rightarrow> pystr list \<Rightarrow> out list \<times> pystr list option" where
  "read_lines ps ins =
     (if length ins < length ps then (map Out (take (Suc (length ins)) ps), None)
      else (map Out ps, Some (take (length ps) ins)))"

section \<open>The branches of the loop\<close>

definition is_action :: "pystr \<Rightarrow> bool" where
  "is_action c \<longleftrightarrow> c \<in> {ustr ''1'', ustr ''2'', ustr ''3'', ustr ''4'', ustr ''5''}"

definition choice_prompts :: "pystr \<Rightarrow> pystr list" where
  "choice_prompts c =
     (if c = ustr ''1'' then [prompt_name, prompt_desc, prompt_freq]
      else if c = ustr ''5'' then [] else [prompt_name])"

definition menu_op :: "pystr \<Rightarrow> pystr list \<Rightarrow> hop" where
  "menu_op c args =
     (if c = ustr ''1'' then Add (args ! 0) (args ! 1) (args ! 2)
      else if c = ustr ''2'' then Complete (hd args)
      else if c = ustr ''3'' then View (hd args)
      else if c = ustr ''4'' then Remove (hd args)
      else Reset)"

definition quoted :: "pystr \<Rightarrow> pystr" where
  "quoted n = [39] @ n @ [39]"

definition menu_msg :: "pystr \<Rightarrow> pystr list \<Rightarrow> jval \<Rightarrow> out list" where
  "menu_msg c args v =
     (if c = ustr ''1'' then [Out (ustr ''Habit '' @ quoted (hd args) @ ustr '' added!'' @ [10])]
      else if c = ustr ''2'' then [Out (ustr ''Habit '' @ quoted (hd args) @ ustr '' marked as completed!'' @ [10])]
      else if c = ustr ''3'' then [Out (ustr ''Progress for '' @ quoted (hd args) @ ustr '': ''), OutValue v, Out [10]]
      else if c = ustr ''4'' then [Out (ustr ''Habit '' @ quoted (hd args) @ ustr '' removed!'' @ [10])]
      else [Out (ustr ''All progress has been reset.'' @ [10])])"

definition msg_exit :: pystr where "msg_exit = ustr ''Exiting the Habit Tracker.'' @ [10]"
definition msg_invalid :: pystr where "msg_invalid = ustr ''Invalid choice, please try again.'' @ [10]"

section \<open>The loop and the program\<close>

function main_loop :: "sys \<Rightarrow> pystr list \<Rightarrow> mexc option \<times> out list \<times> sys" where
  "main_loop s ins =
     (case ins of
        [] \<Rightarrow> (Some EOFError, [Out menu_text, Out prompt_choice], s)
      | c # ins1 \<Rightarrow>
          if c = ustr ''6'' then (None, [Out menu_text, Out prompt_choice, Out msg_exit], s)
          else if is_action c then
            (case read_lines (choice_prompts c) ins1 of
               (os, None) \<Rightarrow> (Some EOFError, [Out menu_text, Out prompt_choice] @ os, s)
             | (os, Some args) \<Rightarrow>
                 (case tracker_call (menu_op c args) s of
                    (Inl e, s') \<Rightarrow> (Some (PyExc e), [Out menu_text, Out prompt_choice] @ os, s')
                  | (Inr v, s') \<Rightarrow>
                      (case main_loop s' (drop (length (choice_prompts c)) ins1) of
                         (r, os', s'') \<Rightarrow> (r, [Out menu_text, Out prompt_choice] @ os @ menu_msg c args v @ os', s''))))
          else (case main_loop s ins1 of
                  (r, os', s'') \<Rightarrow> (r, [Out menu_text, Out prompt_choice, Out msg_invalid] @ os', s'')))"
  by pat_completeness auto
termination
  by (relation "measure (\<lambda>(s, ins). length ins)") auto

text \<open>\<^verbatim>\<open>main()\<close>: \<^verbatim>\<open>HabitTracker()\<close> on the default file, then the loop. The result is the
  uncaught exception, if any, the output and the file system at the end.\<close>

definition main_run :: "disk \<Rightarrow> pystr list \<Rightarrow> mexc option \<times> out list \<times> disk" where
  "main_run d ins =
     (case tracker_init (ustr ''habits.json'') d of
        Inl e \<Rightarrow> (Some (PyExc e), [], d)
      | Inr s \<Rightarrow> (case main_loop s ins of (r, os, s') \<Rightarrow> (r, os, disk s')))"

section \<open>Specification: the calls a session makes\<close>

text \<open>The tracker calls an input script asks for, read without running them
  (\<open>tracker_run\<close> of the theory \<open>Tracker\<close> runs them until one raises).\<close>

function menu_ops :: "pystr list \<Rightarrow> hop list" where
  "menu_ops ins =
     (case ins of
        [] \<Rightarrow> []
      | c # ins1 \<Rightarrow>
          if c = ustr ''6'' then []
          else if is_action c then
            (if length ins1 < length (choice_prompts c) then []
             else menu_op c (take (length (choice_prompts c)) ins1) # menu_ops (drop (length (choice_prompts c)) ins1))
          else menu_ops ins1)"
  by pat_completeness auto
termination
  by (relation "measure length") auto

definition py_exc :: "mexc option \<Rightarrow> exc option" where
  "py_exc r = (case r of Some (PyExc e) \<Rightarrow> Some e | _ \<Rightarrow> None)"

definition menu_count :: "out list \<Rightarrow> nat" where
  "menu_count os = length (filter (\<lambda>x. x = Out menu_text) os)"

abbreviation menu_head :: "out list" where "menu_head \<equiv> [Out menu_text, Out prompt_choice]"

section \<open>Lemmas\<close>

declare main_loop.simps [simp del] menu_ops.simps [simp del]

lemma main_loop_Nil: "main_loop s [] = (Some EOFError, [Out menu_text, Out prompt_choice], s)"
  by (simp add: main_loop.simps)

lemma menu_ops_Nil: "menu_ops [] = []"
  by (simp add: menu_ops.simps)

lemma main_loop_Cons:
  "main_loop s (c # ins1) =
     (if c = ustr ''6'' then (None, [Out menu_text, Out prompt_choice, Out msg_exit], s)
      else if is_action c then
        (if length ins1 < length (choice_prompts c)
         then (Some EOFError, [Out menu_text, Out prompt_choice] @ map Out (take (Suc (length ins1)) (choice_prompts c)), s)
         else (case tracker_call (menu_op c (take (length (choice_prompts c)) ins1)) s of
            (Inl e, s') \<Rightarrow> (Some (PyExc e), [Out menu_text, Out prompt_choice] @ map Out (choice_prompts c), s')
          | (Inr v, s') \<Rightarrow>
              (case main_loop s' (drop (length (choice_prompts c)) ins1) of
                 (r, os', s'') \<Rightarrow> (r, [Out menu_text, Out prompt_choice] @ map Out (choice_prompts c) @
                                     menu_msg c (take (length (choice_prompts c)) ins1) v @ os', s''))))
      else (case main_loop s ins1 of
              (r, os', s'') \<Rightarrow> (r, [Out menu_text, Out prompt_choice, Out msg_invalid] @ os', s'')))"
  by (subst main_loop.simps) (simp add: read_lines_def)

lemma menu_ops_Cons:
  "menu_ops (c # ins1) =
     (if c = ustr ''6'' then []
      else if is_action c then
        (if length ins1 < length (choice_prompts c) then []
         else menu_op c (take (length (choice_prompts c)) ins1) # menu_ops (drop (length (choice_prompts c)) ins1))
      else menu_ops ins1)"
  by (subst menu_ops.simps) simp

lemma main_loop_refines_run:
  "tracker_run (menu_ops ins) s = (py_exc (fst (main_loop s ins)), snd (snd (main_loop s ins)))"
proof (induction ins arbitrary: s rule: length_induct)
  case (1 ins)
  show ?case
  proof (cases ins)
    case Nil
    then show ?thesis by (simp add: main_loop_Nil menu_ops_Nil py_exc_def)
  next
    case (Cons c ins1)
    let ?k = "length (choice_prompts c)"
    have ih1: "tracker_run (menu_ops ins1) s' = (py_exc (fst (main_loop s' ins1)), snd (snd (main_loop s' ins1)))" for s'
      using "1.IH" Cons by simp
    have ih2: "tracker_run (menu_ops (drop ?k ins1)) s' =
        (py_exc (fst (main_loop s' (drop ?k ins1))), snd (snd (main_loop s' (drop ?k ins1))))" for s'
      using "1.IH" Cons by simp
    show ?thesis
      using ih1 ih2 unfolding Cons main_loop_Cons menu_ops_Cons
      by (auto simp: py_exc_def split: prod.splits sum.splits)
  qed
qed

lemma menu_count_append [simp]: "menu_count (xs @ ys) = menu_count xs + menu_count ys"
  by (simp add: menu_count_def)

lemma menu_text_neq [simp]:
  "prompt_choice \<noteq> menu_text" "msg_exit \<noteq> menu_text" "msg_invalid \<noteq> menu_text"
  by (simp_all add: prompt_choice_def msg_exit_def msg_invalid_def menu_text_def)

lemma menu_count_basic [simp]:
  "menu_count [] = 0"
  "menu_count (Out menu_text # xs) = Suc (menu_count xs)"
  "p \<noteq> menu_text \<Longrightarrow> menu_count (Out p # xs) = menu_count xs"
  by (simp_all add: menu_count_def)

lemma prompts_neq_menu: "p \<in> set (choice_prompts c) \<Longrightarrow> p \<noteq> menu_text"
  by (auto simp: choice_prompts_def prompt_name_def prompt_desc_def prompt_freq_def menu_text_def
      split: if_splits)

lemma menu_count_prompts [simp]:
  "menu_count (map Out (choice_prompts c)) = 0"
  "menu_count (map Out (take k (choice_prompts c))) = 0"
  by (auto simp: menu_count_def filter_empty_conv dest: prompts_neq_menu in_set_takeD)

lemma menu_count_msg [simp]: "menu_count (menu_msg c args v) = 0"
  by (simp add: menu_msg_def menu_count_def menu_text_def quoted_def)

text \<open>One iteration of the loop: it either ends the program, printing the menu once
  and returning \<open>None\<close> only on choice 6, or prints the menu once and continues on a
  suffix of the input.\<close>

lemma main_loop_step:
  "(fst (main_loop s (c # ins1)) = None \<longrightarrow> c = ustr ''6'') \<and> menu_count (fst (snd (main_loop s (c # ins1)))) = 1
   \<or> (\<exists>s' ins2 xs. length ins2 \<le> length ins1 \<and> set ins2 \<subseteq> set ins1 \<and> menu_count xs = 1 \<and>
        main_loop s (c # ins1) = (fst (main_loop s' ins2), xs @ fst (snd (main_loop s' ins2)), snd (snd (main_loop s' ins2))))"
  (is "?stop \<or> ?cont")
proof (cases "c = ustr ''6'' \<or> (is_action c \<and> length ins1 < length (choice_prompts c))")
  case True
  then show ?thesis by (auto simp: main_loop_Cons)
next
  case False
  let ?k = "length (choice_prompts c)"
  show ?thesis
  proof (cases "is_action c")
    case act: True
    obtain r s' where call: "tracker_call (menu_op c (take ?k ins1)) s = (r, s')" by fastforce
    show ?thesis
    proof (cases r)
      case (Inl e)
      with False act call show ?thesis by (simp add: main_loop_Cons)
    next
      case (Inr v)
      with False act call have "main_loop s (c # ins1) =
          (fst (main_loop s' (drop ?k ins1)),
           ([Out menu_text, Out prompt_choice] @ map Out (choice_prompts c) @ menu_msg c (take ?k ins1) v)
             @ fst (snd (main_loop s' (drop ?k ins1))), snd (snd (main_loop s' (drop ?k ins1))))"
        by (simp add: main_loop_Cons split: prod.split)
      then have ?cont by (intro exI [of _ s'] exI [of _ "drop ?k ins1"]) (auto dest: in_set_dropD)
      then show ?thesis ..
    qed
  next
    case nact: False
    with False have "main_loop s (c # ins1) =
        (fst (main_loop s ins1), [Out menu_text, Out prompt_choice, Out msg_invalid] @ fst (snd (main_loop s ins1)),
         snd (snd (main_loop s ins1)))"
      by (simp add: main_loop_Cons split: prod.split)
    then have ?cont by (intro exI [of _ s] exI [of _ ins1]) auto
    then show ?thesis ..
  qed
qed

lemmas menu_eval = main_run_def tracker_init_def load_data_def main_loop_Cons main_loop_Nil is_action_def
  choice_prompts_def menu_op_def menu_msg_def prompt_name_def prompt_desc_def prompt_freq_def

section \<open>Properties of main()\<close>

text \<open>(C15) Refinement: whatever the data, a session of \<^verbatim>\<open>main\<close> makes exactly the tracker
  calls its input script asks for, in order, until one raises; the state it leaves and the
  exception that ends it are those of running the calls one after another.\<close>

theorem main_refines:
  "tracker_run (menu_ops ins) s = (py_exc (fst (main_loop s ins)), snd (snd (main_loop s ins)))"
  by (rule main_loop_refines_run)

text \<open>(C32) The program ends without an exception only by the choice 6: if the loop
  returns normally, the input held the line \<^verbatim>\<open>6\<close>.\<close>

theorem main_loop_exit: "fst (main_loop s ins) = None \<Longrightarrow> ustr ''6'' \<in> set ins"
proof (induction ins arbitrary: s rule: length_induct)
  case (1 ins)
  show ?case
  proof (cases ins)
    case Nil
    with "1.prems" show ?thesis by (simp add: main_loop_Nil)
  next
    case (Cons c ins1)
    from main_loop_step [of s c ins1] show ?thesis
    proof
      assume "(fst (main_loop s (c # ins1)) = None \<longrightarrow> c = ustr ''6'') \<and>
        menu_count (fst (snd (main_loop s (c # ins1)))) = 1"
      then show ?thesis using Cons "1.prems" by simp
    next
      assume "\<exists>s' ins2 xs. length ins2 \<le> length ins1 \<and> set ins2 \<subseteq> set ins1 \<and> menu_count xs = 1 \<and>
        main_loop s (c # ins1) = (fst (main_loop s' ins2), xs @ fst (snd (main_loop s' ins2)), snd (snd (main_loop s' ins2)))"
      then obtain s' ins2 xs where l: "length ins2 \<le> length ins1" and sub: "set ins2 \<subseteq> set ins1"
        and e: "main_loop s (c # ins1) = (fst (main_loop s' ins2), xs @ fst (snd (main_loop s' ins2)), snd (snd (main_loop s' ins2)))"
        by blast
      from l Cons have "length ins2 < length ins" by simp
      moreover have "fst (main_loop s' ins2) = None" using "1.prems" e Cons by simp
      ultimately have "ustr ''6'' \<in> set ins2" using "1.IH" by blast
      with sub Cons show ?thesis by auto
    qed
  qed
qed

theorem main_loop_exit_witness:
  "fst (main_loop \<lparr>filename = ustr ''habits.json'', habits = JObj [], disk = Map.empty\<rparr> [ustr ''7'', ustr ''6'']) = None \<and>
   ustr ''6'' \<in> set [ustr ''7'', ustr ''6'']"
proof -
  have h: "fst (main_loop \<lparr>filename = ustr ''habits.json'', habits = JObj [], disk = Map.empty\<rparr> [ustr ''7'', ustr ''6'']) = None"
    by (simp add: menu_eval)
  from main_loop_exit [OF h] h show ?thesis by simp
qed

text \<open>(C16) The dispatch table of \<^verbatim>\<open>main\<close>: for each choice 1 to 5 and any data, one
  iteration prints the menu and the prompts of that choice, calls the method the choice
  names on the lines read (add_habit on name, description and frequency; mark_completed,
  view_progress or remove_habit on the name; reset_progress), stops with the exception
  it raises, and otherwise prints that choice's message (for choice 3 with the value
  returned) and goes on with the rest of the input.\<close>

theorem main_dispatch:
  "main_loop s (ustr ''1'' # n # dsc # f # rest) = (case tracker_add_habit n dsc f s of
      (Inl e, s') \<Rightarrow> (Some (PyExc e), menu_head @ [Out prompt_name, Out prompt_desc, Out prompt_freq], s')
    | (Inr v, s') \<Rightarrow> (case main_loop s' rest of (r, os, s'') \<Rightarrow>
        (r, menu_head @ [Out prompt_name, Out prompt_desc, Out prompt_freq,
                         Out (ustr ''Habit '' @ quoted n @ ustr '' added!'' @ [10])] @ os, s'')))  \<and>
   main_loop s (ustr ''2'' # n # rest) = (case tracker_mark_completed n s of
      (Inl e, s') \<Rightarrow> (Some (PyExc e), menu_head @ [Out prompt_name], s')
    | (Inr v, s') \<Rightarrow> (case main_loop s' rest of (r, os, s'') \<Rightarrow>
        (r, menu_head @ [Out prompt_name, Out (ustr ''Habit '' @ quoted n @ ustr '' marked as completed!'' @ [10])] @ os, s'')))  \<and>
   main_loop s (ustr ''3'' # n # rest) = (case tracker_view_progress n s of
      (Inl e, s') \<Rightarrow> (Some (PyExc e), menu_head @ [Out prompt_name], s')
    | (Inr v, s') \<Rightarrow> (case main_loop s' rest of (r, os, s'') \<Rightarrow>
        (r, menu_head @ [Out prompt_name, Out (ustr ''Progress for '' @ quoted n @ ustr '': ''), OutValue v, Out [10]] @ os, s'')))  \<and>
   main_loop s (ustr ''4'' # n # rest) = (case tracker_remove_habit n s of
      (Inl e, s') \<Rightarrow> (Some (PyExc e), menu_head @ [Out prompt_name], s')
    | (Inr v, s') \<Rightarrow> (case main_loop s' rest of (r, os, s'') \<Rightarrow>
        (r, menu_head @ [Out prompt_name, Out (ustr ''Habit '' @ quoted n @ ustr '' removed!'' @ [10])] @ os, s'')))  \<and>
   main_loop s (ustr ''5'' # rest) = (case tracker_reset_progress s of
      (Inl e, s') \<Rightarrow> (Some (PyExc e), menu_head, s')
    | (Inr v, s') \<Rightarrow> (case main_loop s' rest of (r, os, s'') \<Rightarrow>
        (r, menu_head @ [Out (ustr ''All progress has been reset.'' @ [10])] @ os, s'')))"
  by (intro conjI) (simp_all add: main_loop_Cons is_action_def choice_prompts_def read_lines_def
      menu_op_def menu_msg_def split: prod.splits sum.splits)

end
