(* ===== verification/Tests.thy ===== *)
theory Tests
  imports Tracker
begin

text \<open>
  The unit tests of \<^verbatim>\<open>src/test_habit_tracker.py\<close> (class \<^verbatim>\<open>TestHabitTracker\<close>) over the
  model of \<open>Tracker\<close>. \<^verbatim>\<open>setUp\<close> builds a tracker on \<^verbatim>\<open>test_habits.json\<close> from whatever
  file system the test starts with and then empties \<^verbatim>\<open>self.habits\<close>; each test method is
  a predicate on that starting file system that holds when the method passes: every
  call it makes returns (an uncaught exception is a test error), every
  \<^verbatim>\<open>assertEqual\<close> and \<^verbatim>\<open>assertIn\<close> holds (equality of the values, which here are
  strings and ints), and every \<^verbatim>\<open>assertRaises(ValueError)\<close> block raises a ValueError.
  \<^verbatim>\<open>tearDown\<close> only removes the file and has no assertion. The theorem of this theory
  is that the whole suite passes on every starting file system in which the test file
  is not forbidden to the process.
\<close>

definition test_file :: pystr where "test_file = ustr ''test_habits.json''"

definition set_up :: "disk \<Rightarrow> exc + sys" where
  "set_up d = (case tracker_init test_file d of Inl e \<Rightarrow> Inl e | Inr s \<Rightarrow> Inr (s\<lparr>habits := JObj []\<rparr>))"

definition field :: "sys \<Rightarrow> pystr \<Rightarrow> pystr \<Rightarrow> exc + jval" where
  "field s n k = (case py_getitem (habits s) (JStr n) of Inl e \<Rightarrow> Inl e | Inr t \<Rightarrow> py_getitem t (JStr k))"

definition raises_value_error :: "exc + jval \<Rightarrow> bool" where
  "raises_value_error r = (case r of Inl (ValueError _) \<Rightarrow> True | _ \<Rightarrow> False)"

text \<open>A test body: the calls before the assertions must all return.\<close>

definition run_then :: "disk \<Rightarrow> hop list \<Rightarrow> (sys \<Rightarrow> bool) \<Rightarrow> bool" where
  "run_then d ops check =
     (case set_up d of
        Inl _ \<Rightarrow> False
      | Inr s \<Rightarrow> (case tracker_run ops s of (None, s') \<Rightarrow> check s' | (Some _, _) \<Rightarrow> False))"

definition exercise :: pystr where "exercise = ustr ''Exercise''"
definition add_exercise :: hop where "add_exercise = Add exercise (ustr ''Daily workout'') (ustr ''daily'')"

definition test_add_habit :: "disk \<Rightarrow> bool" where
  "test_add_habit d = run_then d [add_exercise] (\<lambda>s.
     py_contains exercise (habits s) = Inr True \<and>
     field s exercise key_description = Inr (JStr (ustr ''Daily workout'')) \<and>
     field s exercise key_frequency = Inr (JStr (ustr ''daily'')) \<and>
     field s exercise key_count = Inr (JInt 0))"

definition test_add_existing_habit :: "disk \<Rightarrow> bool" where
  "test_add_existing_habit d = run_then d [add_exercise] (\<lambda>s.
     raises_value_error (fst (tracker_call (Add exercise (ustr ''Another description'') (ustr ''weekly'')) s)))"

definition test_mark_completed :: "disk \<Rightarrow> bool" where
  "test_mark_completed d = run_then d [add_exercise, Complete exercise] (\<lambda>s.
     field s exercise key_count = Inr (JInt 1))"

definition test_mark_completed_nonexistent_habit :: "disk \<Rightarrow> bool" where
  "test_mark_completed_nonexistent_habit d = run_then d [] (\<lambda>s.
     raises_value_error (fst (tracker_call (Complete (ustr ''Nonexistent'')) s)))"

definition test_view_progress :: "disk \<Rightarrow> bool" where
  "test_view_progress d = run_then d [add_exercise, Complete exercise] (\<lambda>s.
     fst (tracker_call (View exercise) s) = Inr (JInt 1))"

definition test_view_progress_nonexistent_habit :: "disk \<Rightarrow> bool" where
  "test_view_progress_nonexistent_habit d = run_then d [] (\<lambda>s.
     raises_value_error (fst (tracker_call (View (ustr ''Nonexistent'')) s)))"

definition test_remove_habit :: "disk \<Rightarrow> bool" where
  "test_remove_habit d = run_then d [add_exercise, Remove exercise] (\<lambda>s.
     py_contains exercise (habits s) = Inr False)"

definition test_remove_nonexistent_habit :: "disk \<Rightarrow> bool" where
  "test_remove_nonexistent_habit d = run_then d [] (\<lambda>s.
     raises_value_error (fst (tracker_call (Remove (ustr ''Nonexistent'')) s)))"

definition test_reset_progress :: "disk \<Rightarrow> bool" where
  "test_reset_progress d = run_then d
     [add_exercise, Add (ustr ''Meditation'') (ustr ''Daily meditation'') (ustr ''daily''),
      Complete exercise, Complete (ustr ''Meditation''), Reset] (\<lambda>s.
     field s exercise key_count = Inr (JInt 0) \<and> field s (ustr ''Meditation'') key_count = Inr (JInt 0))"

definition test_suite :: "disk \<Rightarrow> bool" where
  "test_suite d \<longleftrightarrow> test_add_habit d \<and> test_add_existing_habit d \<and> test_mark_completed d \<and>
     test_mark_completed_nonexistent_habit d \<and> test_view_progress d \<and>
     test_view_progress_nonexistent_habit d \<and> test_remove_habit d \<and>
     test_remove_nonexistent_habit d \<and> test_reset_progress d"

section \<open>Lemmas\<close>

lemma set_up_ok: "d test_file \<noteq> Some NoAccess \<Longrightarrow> set_up d = Inr \<lparr>filename = test_file, habits = store_json [], disk = d\<rparr>"
  by (auto simp: set_up_def tracker_init_def load_data_def store_json_def
      split: option.splits fentry.splits)

lemma set_up_writable: "d test_file \<noteq> Some NoAccess \<Longrightarrow> writable \<lparr>filename = test_file, habits = store_json [], disk = d\<rparr>"
  by (simp add: writable_def)

lemma run_then_store:
  assumes "d test_file \<noteq> Some NoAccess" "hrun ops [] = Inr hs'"
    and "\<And>s. habits s = store_json hs' \<Longrightarrow> writable s \<Longrightarrow> check s"
  shows "run_then d ops check"
proof -
  let ?s = "\<lparr>filename = test_file, habits = store_json [], disk = d\<rparr>"
  have "wf_store []" by (simp add: wf_store_def)
  from tracker_run_store [OF this _ set_up_writable [where d = d, OF assms(1)], of ops] assms(2)
  have "writable (snd (tracker_run ops ?s))" "fst (tracker_run ops ?s) = None"
    "habits (snd (tracker_run ops ?s)) = store_json hs'" by simp_all
  with assms(3) [of "snd (tracker_run ops ?s)"] show ?thesis
    by (cases "tracker_run ops ?s") (simp add: run_then_def set_up_ok [where d = d, OF assms(1)])
qed

lemma py_getitem_fields [simp]:
  "py_getitem (habit_json h) (JStr key_description) = Inr (JStr (description h))"
  "py_getitem (habit_json h) (JStr key_frequency) = Inr (JStr (frequency h))"
  by (simp_all add: py_getitem_def habit_json_def)

lemmas test_simps = add_exercise_def exercise_def habit_ops field_def raises_value_error_def

lemma tests_pass_each:
  assumes d: "d test_file \<noteq> Some NoAccess"
  shows "test_add_habit d" "test_add_existing_habit d" "test_mark_completed d"
    "test_mark_completed_nonexistent_habit d" "test_view_progress d"
    "test_view_progress_nonexistent_habit d" "test_remove_habit d"
    "test_remove_nonexistent_habit d" "test_reset_progress d"
  unfolding test_add_habit_def test_add_existing_habit_def test_mark_completed_def
    test_mark_completed_nonexistent_habit_def test_view_progress_def
    test_view_progress_nonexistent_habit_def test_remove_habit_def
    test_remove_nonexistent_habit_def test_reset_progress_def
  by (rule run_then_store [where d = d, OF d], simp add: test_simps,
      simp add: test_simps tracker_defs new_record_json herr_msg_def py_add_one_def reset_value_store)+

section \<open>Properties\<close>

text \<open>(C33) The unit tests pass: on every starting file system in which
  \<^verbatim>\<open>test_habits.json\<close> is absent, readable text of any content, or writable, each of the
  nine test methods of \<^verbatim>\<open>TestHabitTracker\<close> passes.\<close>

theorem tests_pass: "d test_file \<noteq> Some NoAccess \<Longrightarrow> test_suite d"
  using tests_pass_each by (simp add: test_suite_def)

theorem tests_pass_witness:
  "(Map.empty :: disk) test_file \<noteq> Some NoAccess \<and> test_suite Map.empty"
  using tests_pass [of Map.empty] by simp

end
