(* ===== verification/Spec2Isabelle.thy ===== *)
theory Spec2Isabelle
  imports Session Menu Tests
begin

text \<open>
  \<^bold>\<open>A verification development of the habit tracker\<close> (\<^verbatim>\<open>src/habit_tracker.py\<close>, with
  its tests \<^verbatim>\<open>src/test_habit_tracker.py\<close>).

  \<^bold>\<open>The program.\<close> One class, \<^verbatim>\<open>HabitTracker\<close>, keeps \<^verbatim>\<open>self.habits\<close>, a dict from habit
  name to a record \<^verbatim>\<open>{"description", "frequency", "completion_count"}\<close>, loads it from a
  JSON file once in \<^verbatim>\<open>__init__\<close> (\<^verbatim>\<open>load_data\<close>) and rewrites the whole file after every
  mutation (\<^verbatim>\<open>save_data\<close>). Its methods \<^verbatim>\<open>add_habit\<close>, \<^verbatim>\<open>mark_completed\<close>,
  \<^verbatim>\<open>view_progress\<close>, \<^verbatim>\<open>remove_habit\<close> and \<^verbatim>\<open>reset_progress\<close> raise ValueError for a
  duplicate or missing name. \<^verbatim>\<open>main()\<close> is a text menu that reads lines, calls the
  methods and prints their results; the unit tests drive the methods directly.

  \<^bold>\<open>The theories, bottom up.\<close>
  \<^item> \<open>Prelude\<close>: Python strings as code point lists (\<open>pystr\<close>) and dicts as insertion
    ordered association lists (\<open>dict_set\<close>, \<open>dict_del\<close>, \<open>dict_of_pairs\<close>) with their
    lemmas in terms of \<open>map_of\<close>.
  \<^item> \<open>Habits\<close>: the methods on well-formed data, as total functions on the typed store
    \<open>hstore\<close> returning \<open>herr + _\<close> (\<open>add_habit\<close>, \<open>mark_completed\<close>, \<open>view_progress\<close>,
    \<open>remove_habit\<close>, and \<open>reset_progress\<close>, the loop over the keys as \<open>reset_loop\<close>);
    the operations as one step \<open>hstep\<close> on the datatype \<open>hop\<close> and scripts \<open>hrun\<close>;
    the abstract specification \<open>hspec\<close> on finite maps. Lemmas: refinement of \<open>hspec\<close>
    (\<open>hstep_refines\<close>), the invariant \<open>wf_store\<close> (distinct names, counts \<open>\<ge> 0\<close>)
    kept by every script, the equivalence of the loop with a map (\<open>reset_progress_equiv\<close>),
    and the laws of the spec's section 8; from an empty store a count never exceeds the
    number of completions of its name (\<open>completion_count_bound\<close>).
  \<^item> \<open>Json\<close>: the library calls, modelled from CPython's behaviour because they are not
    under src/: \<open>json_dumps\<close> (\<^verbatim>\<open>json.dump(indent=4)\<close>, ensure_ascii, surrogate pairs) and
    \<open>json_loads\<close>, the C scanner with fuel (\<open>pval\<close>, \<open>parr\<close>, \<open>pobj\<close>, \<open>scan_str\<close>,
    \<open>scan_number\<close>). \<open>Json_Roundtrip\<close> proves that the fuel \<open>2 * length s + 1\<close> is
    enough (the parser consumes a character per unit of fuel spent, \<open>parse_fuel_enough\<close>),
    that more fuel changes nothing (\<open>parse_fuel_mono\<close>), and that loading inverts
    printing for values with valid strings and distinct keys (\<open>json_roundtrip\<close>).
  \<^item> \<open>Tracker\<close>: the object as Python runs it. \<open>self.habits\<close> is a \<open>jval\<close> (anything
    \<^verbatim>\<open>json.load\<close> may return), the state is the record \<open>sys\<close> (file name, data, file
    system \<open>disk\<close>), and each method (\<open>tracker_add_habit\<close> \<dots> \<open>tracker_reset_progress\<close>,
    dispatched by \<open>tracker_call\<close>) returns the outcome \<open>(exc + jval) \<times> sys\<close>: the state is
    kept when an exception propagates, as Python keeps the mutations made before a raise.
    Membership, subscription, assignment, \<^verbatim>\<open>+= 1\<close> and iteration follow Python on
    every kind of value (\<open>py_contains\<close>, \<open>py_getitem\<close>, \<open>py_setitem\<close>, \<open>py_add_one\<close>,
    \<open>reset_value\<close>). Lemmas: refinement of the typed store plus one whole-file save
    (\<open>tracker_refines\<close>), the file written exactly on success, type safety (a store of
    the shape \<open>is_store\<close> keeps it under every method, writable file or not, and raises
    only ValueError or PermissionError: \<open>tracker_call_typed\<close>), and the divergences below.
  \<^item> \<open>Persistence\<close>: save then load. A restart rebuilds the tracker from a file it wrote
    (\<open>restart_synced\<close>, \<open>restart_after_persist\<close>), the parser's fuel never decides
    \<^verbatim>\<open>load_data\<close> (\<open>load_data_fuel\<close>), every saved file is ASCII
    (\<open>save_data_ascii\<close>), and a counterexample outside valid strings.
  \<^item> \<open>Effects\<close>: the methods on data of any shape. Every call keeps the file name,
    touches no other path, and writes \<^verbatim>\<open>self.filename\<close> only with the serialisation of
    the data after the call (\<open>tracker_call_frame\<close>); on data that is not a dict every
    method but \<^verbatim>\<open>reset_progress\<close> raises and changes nothing, and \<^verbatim>\<open>reset_progress\<close>
    completes only on \<^verbatim>\<open>[]\<close> or \<^verbatim>\<open>""\<close> (\<open>reset_list_no_dict\<close>: the loop over a
    non-empty list always meets an element that is no index). On a dict whose records
    are followed by an entry that is no record, \<^verbatim>\<open>reset_progress\<close> resets the records
    before it and raises without saving (\<open>reset_progress_partial\<close>); any JSON file
    that is no dict is loaded as it is (\<open>tracker_init_wrong_shape\<close>).
  \<^item> \<open>Session\<close>: a caller that calls the methods in any order, catching what they raise,
    and restarts the program on the same file, as the inductive predicate \<open>session\<close>.
    Rule induction gives the invariant \<open>session_inv\<close> (data of the tracker's shape with
    valid strings; the file holds its initial content or the serialisation of such data;
    no other file changes), that on a writable file memory and file never drift apart
    (\<open>session_synced\<close>), and that a restart rebuilds a synced state
    (\<open>session_restart\<close>).
  \<^item> \<open>Menu\<close>: \<^verbatim>\<open>main()\<close> as \<open>main_loop\<close> over the list of input lines, producing the list
    of output pieces and ending with the exception that stops it, if any (\<open>main_run\<close>).
    Lemmas: the session makes exactly the calls of its script (\<open>main_refines\<close>), each
    choice calls its method and prints its message (\<open>main_dispatch\<close>), and the loop
    ends normally only on choice 6 (\<open>main_loop_exit\<close>).
  \<^item> \<open>Tests\<close>: \<^verbatim>\<open>setUp\<close> and the nine test methods as predicates on the starting file
    system, and the theorem that they all pass.
  This theory composes them: a menu session on a well-formed store is the typed script
  run of \<open>Habits\<close> (\<open>session_refines_hrun\<close>), and every run of \<^verbatim>\<open>main()\<close>, however
  it ends, is a session of \<open>Session\<close>, so its invariant and the agreement of memory and
  file hold for the menu program (\<open>main_in_session\<close>).

  \<^bold>\<open>Fuel and termination.\<close> Every recursion is total. The loops of the program are
  structural (\<open>reset_loop\<close>, \<open>reset_dict\<close>) or have a measure (\<open>reset_list\<close> on the
  index, \<open>main_loop\<close> and \<open>menu_ops\<close> on the input length, \<open>scan_str\<close> on the text). The
  JSON parser, mutually recursive over nested values, takes fuel; \<open>json_loads\<close> gives
  it \<open>2 * length s + 1\<close>, which \<open>parse_fuel_enough\<close> shows is never exhausted, so its
  \<open>None\<close> is exactly a JSONDecodeError.

  \<^bold>\<open>Findings.\<close> The code leaves memory changed when the save after a mutation fails
  (\<open>mark_completed_save_fails\<close>), resets part of a malformed store before raising
  (\<open>reset_progress_partial\<close>), accepts a file of well-formed JSON of another shape
  (\<open>tracker_init_wrong_shape\<close>), lets every ValueError and the EOFError of
  \<^verbatim>\<open>input()\<close> end \<^verbatim>\<open>main\<close> (\<open>main_refines\<close>, \<open>main_dispatch\<close>), and renames a habit whose name
  holds a surrogate pair as two code points across a restart
  (\<open>restart_merges_surrogates\<close>), and on a file holding \<^verbatim>\<open>[]\<close> or \<^verbatim>\<open>""\<close> lets
  \<^verbatim>\<open>reset_progress\<close> succeed and rewrite it while every other method raises
  (\<open>reset_progress_non_dict\<close>).

  \<^bold>\<open>Not modelled.\<close> The operating system beyond a map from paths to text or to a file
  the process may not open: UTF-8 decoding, newline translation, a crash in the middle of
  a write, other I/O errors. Floats are exact decimals, not binary doubles, and
  \<^verbatim>\<open>str()\<close> of a printed value is left as the value (\<open>OutValue\<close>). The interpreter's
  recursion limit on deeply nested JSON and the 4300-digit limit on int conversion are
  not modelled. \<^verbatim>\<open>tearDown\<close> of the tests only deletes the file and is not modelled.
  Sessions take their inputs as valid strings; a name with a lone surrogate (which
  \<^verbatim>\<open>input()\<close> does not produce from UTF-8 text) is covered by the single-call theorems only.
  The module-level \<^verbatim>\<open>if __name__ == "__main__": main()\<close> is \<open>main_run\<close> itself.
\<close>

section \<open>Lemmas: the menu as a session\<close>

lemma tracker_run_session:
  "session fn d s \<Longrightarrow> list_all op_valid ops \<Longrightarrow> session fn d (snd (tracker_run ops s))"
proof (induction ops arbitrary: s)
  case Nil
  then show ?case by simp
next
  case (Cons op ops)
  obtain r s' where call: "tracker_call op s = (r, s')" by fastforce
  have s': "session fn d s'" using Cons.prems call by (auto intro: session.call)
  show ?case
  proof (cases r)
    case (Inl e)
    with call s' show ?thesis by simp
  next
    case (Inr v)
    with call Cons.IH [OF s'] Cons.prems(2) show ?thesis by simp
  qed
qed

lemma menu_op_valid:
  "list_all valid_str args \<Longrightarrow> length args = length (choice_prompts c) \<Longrightarrow> op_valid (menu_op c args)"
  by (auto simp: menu_op_def op_valid_def choice_prompts_def list_all_iff length_Suc_conv)

lemma menu_ops_valid: "list_all valid_str ins \<Longrightarrow> list_all op_valid (menu_ops ins)"
proof (induction ins rule: length_induct)
  case (1 ins)
  show ?case
  proof (cases ins)
    case Nil
    then show ?thesis by (simp add: menu_ops_Nil)
  next
    case (Cons c ins1)
    let ?k = "length (choice_prompts c)"
    have v1: "list_all valid_str ins1" using "1.prems" Cons by simp
    have "list_all valid_str (take ?k ins1)" "list_all valid_str (drop ?k ins1)"
      using v1 by (auto simp: list_all_iff dest: in_set_takeD in_set_dropD)
    moreover have "length (drop ?k ins1) < length ins" "length ins1 < length ins" using Cons by simp_all
    ultimately show ?thesis using "1.IH" v1 Cons
      by (auto simp: menu_ops_Cons intro: menu_op_valid)
  qed
qed

section \<open>The menu over the typed store\<close>

text \<open>(C14) End to end: on a well-formed store in memory and a writable file, a menu session
  behaves as the typed script of its input: if the script succeeds, \<^verbatim>\<open>main\<close> raises no
  ValueError and leaves the store the script computes; if the script fails, \<^verbatim>\<open>main\<close>
  ends with that error's ValueError.\<close>

theorem session_refines_hrun:
  "wf_store hs \<Longrightarrow> habits s = store_json hs \<Longrightarrow> writable s \<Longrightarrow>
   (case hrun (menu_ops ins) hs of
      Inr hs' \<Rightarrow> py_exc (fst (main_loop s ins)) = None \<and> habits (snd (snd (main_loop s ins))) = store_json hs'
    | Inl e \<Rightarrow> py_exc (fst (main_loop s ins)) = Some (ValueError (herr_msg e)))"
  using tracker_run_store [of hs s "menu_ops ins"] by (simp add: main_loop_refines_run split: sum.splits)

theorem session_refines_hrun_witness:
  "wf_store [] \<and> habits \<lparr>filename = ustr ''habits.json'', habits = store_json [], disk = Map.empty\<rparr> = store_json [] \<and>
   writable \<lparr>filename = ustr ''habits.json'', habits = store_json [], disk = Map.empty\<rparr> \<and>
   (case hrun (menu_ops [ustr ''1'', ustr ''Gym'', [], ustr ''daily'', ustr ''6'']) [] of
      Inr hs' \<Rightarrow> py_exc (fst (main_loop \<lparr>filename = ustr ''habits.json'', habits = store_json [], disk = Map.empty\<rparr>
                   [ustr ''1'', ustr ''Gym'', [], ustr ''daily'', ustr ''6''])) = None \<and>
                 habits (snd (snd (main_loop \<lparr>filename = ustr ''habits.json'', habits = store_json [], disk = Map.empty\<rparr>
                   [ustr ''1'', ustr ''Gym'', [], ustr ''daily'', ustr ''6'']))) = store_json hs'
    | Inl e \<Rightarrow> py_exc (fst (main_loop \<lparr>filename = ustr ''habits.json'', habits = store_json [], disk = Map.empty\<rparr>
                   [ustr ''1'', ustr ''Gym'', [], ustr ''daily'', ustr ''6''])) = Some (ValueError (herr_msg e)))"
proof -
  have h1: "wf_store []" by (simp add: wf_store_def)
  have h2: "habits \<lparr>filename = ustr ''habits.json'', habits = store_json [], disk = Map.empty\<rparr> = store_json []" by simp
  have h3: "writable \<lparr>filename = ustr ''habits.json'', habits = store_json [], disk = Map.empty\<rparr>"
    by (simp add: writable_def)
  from session_refines_hrun [OF h1 h2 h3, of "[ustr ''1'', ustr ''Gym'', [], ustr ''daily'', ustr ''6'']"] h1 h2 h3
  show ?thesis by blast
qed

text \<open>(C9) Composition of the menu with sessions: however \<^verbatim>\<open>main()\<close> ends (choice 6, a
  ValueError, a PermissionError or the end of the input), on valid input lines and a
  starting file of the tracker's shape its final state satisfies the session invariant,
  and on a writable file its data and file are in step or the file system is untouched.\<close>

theorem main_in_session:
  "start_ok fn d \<Longrightarrow> list_all valid_str ins \<Longrightarrow> tracker_init fn d = Inr s \<Longrightarrow>
   session_inv fn d (snd (snd (main_loop s ins))) \<and>
   (d fn \<noteq> Some NoAccess \<longrightarrow> synced (snd (snd (main_loop s ins))) \<or> disk (snd (snd (main_loop s ins))) = d)"
proof -
  assume ok: "start_ok fn d" and v: "list_all valid_str ins" and init: "tracker_init fn d = Inr s"
  have "session fn d (snd (tracker_run (menu_ops ins) s))"
    using session.start [OF init] menu_ops_valid [OF v] by (rule tracker_run_session)
  then have "session fn d (snd (snd (main_loop s ins)))" by (simp add: main_loop_refines_run)
  with ok show ?thesis by (simp add: session_inv_reach session_synced_reach)
qed

theorem main_in_session_witness:
  "start_ok (ustr ''habits.json'') Map.empty \<and> list_all valid_str [ustr ''1'', ustr ''Gym'', [], ustr ''daily'', ustr ''6''] \<and>
   tracker_init (ustr ''habits.json'') Map.empty = Inr \<lparr>filename = ustr ''habits.json'', habits = JObj [], disk = Map.empty\<rparr> \<and>
   session_inv (ustr ''habits.json'') Map.empty
     (snd (snd (main_loop \<lparr>filename = ustr ''habits.json'', habits = JObj [], disk = Map.empty\<rparr>
                 [ustr ''1'', ustr ''Gym'', [], ustr ''daily'', ustr ''6''])))"
proof -
  have h1: "start_ok (ustr ''habits.json'') Map.empty" by (rule start_ok_empty)
  have h2: "list_all valid_str [ustr ''1'', ustr ''Gym'', [], ustr ''daily'', ustr ''6'']"
    by (simp add: valid_str_def is_high_def)
  have h3: "tracker_init (ustr ''habits.json'') Map.empty = Inr \<lparr>filename = ustr ''habits.json'', habits = JObj [], disk = Map.empty\<rparr>"
    by (simp add: tracker_init_def load_data_def)
  from main_in_session [OF h1 h2 h3] h1 h2 h3 show ?thesis by blast
qed

end
